theory Spec2Isabelle
  imports Main "HOL-Library.AList" "HOL-Library.Char_ord" "HOL-Library.List_Lexorder"
begin

section \<open>Python and library primitives used by the views and models\<close>

subsection \<open>Decimal rendering: \<open>str(int)\<close>, zero padding\<close>

definition digit_char :: "nat \<Rightarrow> char" where
  "digit_char d = ''0123456789'' ! d"

function str_nat :: "nat \<Rightarrow> string" where
  "str_nat n = (if n < 10 then [digit_char n] else str_nat (n div 10) @ [digit_char (n mod 10)])"
  by pat_completeness auto
termination
  by (relation "measure id") auto

declare str_nat.simps [simp del]

text \<open>Python's \<open>str\<close> on an int: a minus sign for negative values.\<close>

definition str_int :: "int \<Rightarrow> string" where
  "str_int i = (if i < 0 then CHR ''-'' # str_nat (nat (- i)) else str_nat (nat i))"

definition zfill :: "nat \<Rightarrow> string \<Rightarrow> string" where
  "zfill w s = replicate (w - length s) CHR ''0'' @ s"

subsection \<open>Exceptions\<close>

datatype py_exc =
    ValueError
  | TypeError
  | IndexError
  | InvalidId
  | DoesNotExist
  | MultipleObjectsReturned
  | RelatedObjectDoesNotExist
  | IntegrityError

subsection \<open>Request values\<close>

text \<open>
  A value read from \<open>request.data\<close>: JSON null (also a missing key, \<open>.get\<close> returns
  \<open>None\<close>), a boolean, an integer or a string. Floats, arrays and objects are not
  modelled.
\<close>

datatype json = JNull | JBool bool | JInt int | JStr string

text \<open>Python truthiness, as \<open>all([...])\<close> tests it.\<close>

fun truthy :: "json \<Rightarrow> bool" where
  "truthy JNull = False"
| "truthy (JBool b) = b"
| "truthy (JInt n) = (if n = 0 then False else True)"
| "truthy (JStr s) = (if s = [] then False else True)"

subsection \<open>\<open>int(x)\<close>\<close>

text \<open>
  \<open>int\<close> on a string strips white space, reads an optional sign and then decimal
  digits, single underscores allowed between digits. Only ASCII is modelled: the white
  space stripped is the characters 9 to 13 and 32 (Python also strips Unicode spaces
  such as U+0085 and U+00A0 and accepts other Unicode decimal digits), and the
  interpreter's limit on the number of digits is left out.
\<close>

definition py_isspace :: "char \<Rightarrow> bool" where
  "py_isspace c = (of_char c \<in> set [9, 10, 11, 12, 13, 32 :: nat])"

definition digit_val :: "char \<Rightarrow> nat option" where
  "digit_val c = (let n = (of_char c :: nat) in if 48 \<le> n \<and> n \<le> 57 then Some (n - 48) else None)"

fun py_digits :: "nat \<Rightarrow> string \<Rightarrow> nat option" where
  "py_digits acc [] = Some acc"
| "py_digits acc [c] = (case digit_val c of None \<Rightarrow> None | Some v \<Rightarrow> Some (acc * 10 + v))"
| "py_digits acc (c # d # ds) =
     (if c = CHR ''_''
      then (case digit_val d of None \<Rightarrow> None | Some v \<Rightarrow> py_digits (acc * 10 + v) ds)
      else (case digit_val c of None \<Rightarrow> None | Some v \<Rightarrow> py_digits (acc * 10 + v) (d # ds)))"

definition strip :: "string \<Rightarrow> string" where
  "strip s = rev (dropWhile py_isspace (rev (dropWhile py_isspace s)))"

definition py_unsigned :: "string \<Rightarrow> nat option" where
  "py_unsigned s =
     (case s of
        [] \<Rightarrow> None
      | d # ds \<Rightarrow> (case digit_val d of None \<Rightarrow> None | Some v \<Rightarrow> py_digits v ds))"

definition int_of_str :: "string \<Rightarrow> int option" where
  "int_of_str s =
     (case strip s of
        [] \<Rightarrow> None
      | c # cs \<Rightarrow>
          if c = CHR ''-'' then map_option (\<lambda>n. - int n) (py_unsigned cs)
          else if c = CHR ''+'' then map_option int (py_unsigned cs)
          else map_option int (py_unsigned (c # cs)))"

fun py_int :: "json \<Rightarrow> py_exc + int" where
  "py_int JNull = Inl TypeError"
| "py_int (JBool b) = Inr (if b then 1 else 0)"
| "py_int (JInt n) = Inr n"
| "py_int (JStr s) = (case int_of_str s of None \<Rightarrow> Inl ValueError | Some n \<Rightarrow> Inr n)"

subsection \<open>List indexing\<close>

text \<open>\<open>xs[i]\<close>: a negative index counts from the end; out of range raises IndexError.\<close>

definition py_index :: "'a list \<Rightarrow> int \<Rightarrow> py_exc + 'a" where
  "py_index xs i =
     (if 0 \<le> i \<and> i < int (length xs) then Inr (xs ! nat i)
      else if i < 0 \<and> - int (length xs) \<le> i then Inr (xs ! nat (int (length xs) + i))
      else Inl IndexError)"

subsection \<open>\<open>bson.ObjectId\<close>\<close>

text \<open>
  An ObjectId is a 12-byte value, modelled by the number it encodes. \<open>ObjectId(s)\<close>
  accepts a string of exactly 24 hexadecimal digits and raises InvalidId on any other
  string, TypeError on a value that is not a string.
\<close>

type_synonym oid = nat

definition hex_val :: "char \<Rightarrow> nat option" where
  "hex_val c =
     (let n = (of_char c :: nat) in
      if 48 \<le> n \<and> n \<le> 57 then Some (n - 48)
      else if 97 \<le> n \<and> n \<le> 102 then Some (n - 87)
      else if 65 \<le> n \<and> n \<le> 70 then Some (n - 55)
      else None)"

fun hex_digits :: "nat \<Rightarrow> string \<Rightarrow> nat option" where
  "hex_digits acc [] = Some acc"
| "hex_digits acc (c # cs) =
     (case hex_val c of None \<Rightarrow> None | Some v \<Rightarrow> hex_digits (acc * 16 + v) cs)"

fun ObjectId :: "json \<Rightarrow> py_exc + oid" where
  "ObjectId (JStr s) =
     (if length s = 24
      then (case hex_digits 0 s of None \<Rightarrow> Inl InvalidId | Some k \<Rightarrow> Inr k)
      else Inl InvalidId)"
| "ObjectId _ = Inl TypeError"

subsection \<open>\<open>datetime.date\<close>\<close>

datatype date = Date (year: nat) (month: nat) (day: nat)

definition is_leap :: "nat \<Rightarrow> bool" where
  "is_leap y = (if y mod 4 = 0 then (if y mod 100 = 0 then y mod 400 = 0 else True) else False)"

definition days_in_month :: "nat \<Rightarrow> nat \<Rightarrow> nat" where
  "days_in_month y m =
     (if m = 2 then (if is_leap y then 29 else 28)
      else if m \<in> set [4, 6, 9, 11] then 30 else 31)"

fun all_digits :: "nat \<Rightarrow> string \<Rightarrow> nat option" where
  "all_digits acc [] = Some acc"
| "all_digits acc (c # cs) =
     (case digit_val c of None \<Rightarrow> None | Some v \<Rightarrow> all_digits (acc * 10 + v) cs)"

text \<open>
  \<open>date.fromisoformat\<close> as Python 3.10 and earlier define it: the form \<open>YYYY-MM-DD\<close>
  and no other; \<open>None\<close> stands for the ValueError it raises. From Python 3.11 on the
  function also reads the other ISO 8601 forms (\<open>20240101\<close>, \<open>2024-W01-1\<close>), which are
  rejected here; the statements below depend on it only through the date it returns.
\<close>

definition fromisoformat :: "string \<Rightarrow> date option" where
  "fromisoformat s =
     (if length s = 10 \<and> s ! 4 = CHR ''-'' \<and> s ! 7 = CHR ''-''
      then (case all_digits 0 (take 4 s) of
              None \<Rightarrow> None
            | Some y \<Rightarrow>
               (case all_digits 0 (take 2 (drop 5 s)) of
                  None \<Rightarrow> None
                | Some m \<Rightarrow>
                   (case all_digits 0 (drop 8 s) of
                      None \<Rightarrow> None
                    | Some d \<Rightarrow>
                        if 1 \<le> y \<and> 1 \<le> m \<and> m \<le> 12 \<and> 1 \<le> d \<and> d \<le> days_in_month y m
                        then Some (Date y m d) else None)))
      else None)"

definition isoformat :: "date \<Rightarrow> string" where
  "isoformat d =
     zfill 4 (str_nat (year d)) @ ''-'' @ zfill 2 (str_nat (month d)) @ ''-'' @ zfill 2 (str_nat (day d))"

section \<open>Data model (models.py)\<close>

text \<open>
  Each model class is a record of its stored fields; a foreign key holds the key of the
  row it refers to. \<open>User\<close> rows are represented by their username.
\<close>

record Sport =
  sport_id :: string
  sport_name :: string

record TimeSlot =
  ts_id :: oid
  hour :: int

record Court =
  c_id :: oid
  c_sport :: string
  c_name :: string

record Booking =
  b_id :: oid
  b_court :: oid
  b_time_slot :: oid
  b_date :: date
  b_user :: string
  b_status :: string
  b_created_at :: nat
  b_updated_at :: nat

text \<open>
  The database: one list of rows per table, in insertion order, and the next ObjectId the
  store hands out.
\<close>

record db =
  sports :: "Sport list"
  time_slots :: "TimeSlot list"
  courts :: "Court list"
  bookings :: "Booking list"
  next_oid :: oid

text \<open>The clock of one request: \<open>timezone.now()\<close> and its date.\<close>

record clock =
  clock_today :: date
  clock_now :: nat

text \<open>
  \<open>QuerySet.first()\<close>: the first row in primary-key order (the querysets it is called
  on here carry no other ordering), \<open>None\<close> on an empty queryset.
\<close>

definition first_by :: "('a \<Rightarrow> 'k::linorder) \<Rightarrow> 'a list \<Rightarrow> 'a option" where
  "first_by key xs = (case sort_key key xs of [] \<Rightarrow> None | x # _ \<Rightarrow> Some x)"

subsection \<open>TimeSlot\<close>

definition formatted_slot :: "TimeSlot \<Rightarrow> string" where
  "formatted_slot self =
     (let hour_12 = hour self mod 12;
          hour_12 = (if hour_12 = 0 then 12 else hour_12);
          am_pm = (if hour self < 12 then ''AM'' else ''PM'')
      in str_int hour_12 @ '':00 '' @ am_pm)"

text \<open>
  \<open>TimeSlot.objects.get_or_create(hour=h)\<close>: \<open>get\<close> raises MultipleObjectsReturned
  when several rows match; with no match a row is inserted under a fresh ObjectId.
\<close>

definition TimeSlot_get_or_create :: "int \<Rightarrow> db \<Rightarrow> py_exc + db" where
  "TimeSlot_get_or_create h s =
     (case filter (\<lambda>t. hour t = h) (time_slots s) of
        [] \<Rightarrow> Inr (s\<lparr>time_slots := time_slots s @ [\<lparr>ts_id = next_oid s, hour = h\<rparr>],
                    next_oid := Suc (next_oid s)\<rparr>)
      | [t] \<Rightarrow> Inr s
      | _ \<Rightarrow> Inl MultipleObjectsReturned)"

text \<open>
  The loop of \<open>create_default_slots\<close> over a list of hours. An exception ends the loop
  and keeps the rows inserted so far (there is no transaction around it).
\<close>

fun create_slots :: "int list \<Rightarrow> db \<Rightarrow> py_exc option \<times> db" where
  "create_slots [] s = (None, s)"
| "create_slots (h # hs) s =
     (case TimeSlot_get_or_create h s of
        Inl e \<Rightarrow> (Some e, s)
      | Inr s' \<Rightarrow> create_slots hs s')"

text \<open>\<open>range(7, 23)\<close> is the hours 7 to 22.\<close>

definition create_default_slots :: "db \<Rightarrow> py_exc option \<times> db" where
  "create_default_slots s = create_slots [7..22] s"

subsection \<open>Booking\<close>

definition same_triple :: "oid \<Rightarrow> oid \<Rightarrow> date \<Rightarrow> Booking \<Rightarrow> bool" where
  "same_triple c t d b = (b_court b = c \<and> b_time_slot b = t \<and> b_date b = d)"

text \<open>
  A Booking instance in memory. A field that was never assigned is \<open>None\<close>; \<open>pk\<close> is
  \<open>None\<close> until the instance is stored.
\<close>

record Booking_obj =
  pk :: "oid option"
  o_court :: "oid option"
  o_time_slot :: "oid option"
  o_date :: "date option"
  o_user :: "string option"
  o_status :: string
  o_created_at :: nat

definition obj_of_row :: "Booking \<Rightarrow> Booking_obj" where
  "obj_of_row b =
     \<lparr>pk = Some (b_id b), o_court = Some (b_court b), o_time_slot = Some (b_time_slot b),
      o_date = Some (b_date b), o_user = Some (b_user b), o_status = b_status b,
      o_created_at = b_created_at b\<rparr>"

text \<open>
  \<open>models.Model.save\<close> (the \<open>super().save()\<close> of \<open>Booking.save\<close>) against a store that
  enforces the declared constraints: the columns are NOT NULL and
  \<open>unique_booking_per_court_time_date\<close> admits one row per (court, time_slot, date).

  \<open>save_table\<close> is the write itself, for an instance whose columns are all set: an
  instance with a primary key updates its row, or is inserted under that key when no
  row has it; an instance without one is inserted under a fresh ObjectId.
  \<open>created_at\<close> is set on insertion (auto_now_add), \<open>updated_at\<close> on every save
  (auto_now). A write that would leave two rows with one triple raises IntegrityError.
  The result is the primary key of the stored row and the new database.
\<close>

definition save_table ::
  "nat \<Rightarrow> Booking_obj \<Rightarrow> oid \<Rightarrow> oid \<Rightarrow> date \<Rightarrow> string \<Rightarrow> db \<Rightarrow> py_exc + (oid \<times> db)" where
  "save_table now obj c t d u s =
     (case pk obj of
        None \<Rightarrow>
          if list_ex (same_triple c t d) (bookings s) then Inl IntegrityError
          else Inr (next_oid s,
                    s\<lparr>bookings := bookings s @
                         [\<lparr>b_id = next_oid s, b_court = c, b_time_slot = t, b_date = d,
                           b_user = u, b_status = o_status obj,
                           b_created_at = now, b_updated_at = now\<rparr>],
                      next_oid := Suc (next_oid s)\<rparr>)
      | Some k \<Rightarrow>
          if list_ex (\<lambda>b. b_id b = k) (bookings s)
          then if list_ex (\<lambda>b. same_triple c t d b \<and> b_id b \<noteq> k) (bookings s)
               then Inl IntegrityError
               else Inr (k,
                         s\<lparr>bookings :=
                             map (\<lambda>b. if b_id b = k
                                       then \<lparr>b_id = k, b_court = c, b_time_slot = t,
                                             b_date = d, b_user = u, b_status = o_status obj,
                                             b_created_at = o_created_at obj,
                                             b_updated_at = now\<rparr>
                                       else b)
                                 (bookings s)\<rparr>)
          else if list_ex (same_triple c t d) (bookings s) then Inl IntegrityError
          else Inr (k,
                    s\<lparr>bookings := bookings s @
                         [\<lparr>b_id = k, b_court = c, b_time_slot = t, b_date = d,
                           b_user = u, b_status = o_status obj,
                           b_created_at = now, b_updated_at = now\<rparr>],
                      next_oid := max (next_oid s) (Suc k)\<rparr>))"

definition Model_save :: "nat \<Rightarrow> Booking_obj \<Rightarrow> db \<Rightarrow> py_exc + (oid \<times> db)" where
  "Model_save now obj s =
     (case o_court obj of
        None \<Rightarrow> Inl IntegrityError
      | Some c \<Rightarrow>
         (case o_time_slot obj of
            None \<Rightarrow> Inl IntegrityError
          | Some t \<Rightarrow>
             (case o_date obj of
                None \<Rightarrow> Inl IntegrityError
              | Some d \<Rightarrow>
                 (case o_user obj of
                    None \<Rightarrow> Inl IntegrityError
                  | Some u \<Rightarrow> save_table now obj c t d u s))))"

text \<open>
  \<open>Booking.save\<close>. For a new instance (\<open>not self.pk\<close>) it reads \<open>self.court\<close>,
  \<open>self.time_slot\<close> and \<open>self.date\<close> to look for a stored booking of the same triple:
  reading a foreign key that was never assigned raises RelatedObjectDoesNotExist, and
  \<open>filter(date=None)\<close> raises ValueError. A booking that is found takes the instance's
  status and user and is saved instead (\<open>existing.save()\<close> has a primary key, so it goes
  straight to \<open>super().save()\<close>).
\<close>

definition Booking_save :: "nat \<Rightarrow> Booking_obj \<Rightarrow> db \<Rightarrow> py_exc + (oid \<times> db)" where
  "Booking_save now self s =
     (case pk self of
        None \<Rightarrow>
          (case o_court self of
             None \<Rightarrow> Inl RelatedObjectDoesNotExist
           | Some c \<Rightarrow>
              (case o_time_slot self of
                 None \<Rightarrow> Inl RelatedObjectDoesNotExist
               | Some t \<Rightarrow>
                  (case o_date self of
                     None \<Rightarrow> Inl ValueError
                   | Some d \<Rightarrow>
                      (case first_by b_id (filter (same_triple c t d) (bookings s)) of
                         Some existing \<Rightarrow>
                           (case o_user self of
                              None \<Rightarrow> Inl RelatedObjectDoesNotExist
                            | Some u \<Rightarrow>
                                Model_save now
                                  ((obj_of_row existing)\<lparr>o_status := o_status self, o_user := Some u\<rparr>) s)
                       | None \<Rightarrow> Model_save now self s))))
      | Some k \<Rightarrow> Model_save now self s)"

subsection \<open>The queryset calls of the views\<close>

datatype field_value = V_oid oid | V_date date | V_str string

text \<open>
  The keyword lookups the views pass to \<open>Booking.objects\<close>: \<open>court___id\<close> is the
  field \<open>court\<close> followed across the separator \<open>__\<close> to the court's \<open>_id\<close>, which is
  the stored foreign key; likewise \<open>time_slot___id\<close>.
\<close>

definition booking_lookup :: "string \<times> field_value \<Rightarrow> Booking \<Rightarrow> bool" where
  "booking_lookup kv b =
     (if fst kv = ''court___id'' then snd kv = V_oid (b_court b)
      else if fst kv = ''time_slot___id'' then snd kv = V_oid (b_time_slot b)
      else if fst kv = ''date'' then snd kv = V_date (b_date b)
      else False)"

definition Booking_filter :: "(string \<times> field_value) list \<Rightarrow> Booking list \<Rightarrow> Booking list" where
  "Booking_filter kwargs rows = filter (\<lambda>b. list_all (\<lambda>kv. booking_lookup kv b) kwargs) rows"

definition LOOKUP_SEP :: string where
  "LOOKUP_SEP = ''__''"

definition has_lookup_sep :: "string \<Rightarrow> bool" where
  "has_lookup_sep k = list_ex (\<lambda>i. take 2 (drop i k) = LOOKUP_SEP) [0..<length k]"

text \<open>
  \<open>QuerySet._extract_model_params\<close>, which \<open>get_or_create\<close> and \<open>update_or_create\<close>
  use to build the instance they create: the keyword arguments whose name contains no
  lookup separator, then the defaults (\<open>params.update(defaults)\<close>).
\<close>

definition extract_model_params ::
  "(string \<times> field_value) list \<Rightarrow> (string \<times> field_value) list \<Rightarrow> (string \<times> field_value) list" where
  "extract_model_params kwargs defaults =
     fold (\<lambda>kv. AList.update (fst kv) (snd kv)) defaults
       (filter (\<lambda>kv. \<not> has_lookup_sep (fst kv)) kwargs)"

text \<open>\<open>Booking(**params)\<close>: a new instance; \<open>status\<close> defaults to \<open>booked\<close>.\<close>

definition Booking_init :: "(string \<times> field_value) list \<Rightarrow> Booking_obj" where
  "Booking_init params =
     \<lparr>pk = None,
      o_court = (case map_of params ''court'' of Some (V_oid c) \<Rightarrow> Some c | _ \<Rightarrow> None),
      o_time_slot = (case map_of params ''time_slot'' of Some (V_oid t) \<Rightarrow> Some t | _ \<Rightarrow> None),
      o_date = (case map_of params ''date'' of Some (V_date d) \<Rightarrow> Some d | _ \<Rightarrow> None),
      o_user = (case map_of params ''user'' of Some (V_str u) \<Rightarrow> Some u | _ \<Rightarrow> None),
      o_status = (case map_of params ''status'' of Some (V_str st) \<Rightarrow> st | _ \<Rightarrow> ''booked''),
      o_created_at = 0\<rparr>"

text \<open>\<open>setattr(obj, k, v)\<close> for the fields the defaults name.\<close>

definition set_field :: "string \<times> field_value \<Rightarrow> Booking_obj \<Rightarrow> Booking_obj" where
  "set_field kv obj =
     (case snd kv of
        V_str x \<Rightarrow>
          if fst kv = ''status'' then obj\<lparr>o_status := x\<rparr>
          else if fst kv = ''user'' then obj\<lparr>o_user := Some x\<rparr>
          else obj
      | _ \<Rightarrow> obj)"

text \<open>
  \<open>Booking.objects.update_or_create(defaults=..., **kwargs)\<close>: \<open>get(**kwargs)\<close>; a
  single match takes the defaults and is saved; no match creates
  \<open>Booking(**params)\<close> from the extracted parameters and saves it; several matches
  raise MultipleObjectsReturned. The result is the primary key of the booking, the
  \<open>created\<close> flag and the new database.
\<close>

definition Booking_update_or_create ::
  "nat \<Rightarrow> (string \<times> field_value) list \<Rightarrow> (string \<times> field_value) list \<Rightarrow> db
     \<Rightarrow> py_exc + (oid \<times> bool \<times> db)" where
  "Booking_update_or_create now kwargs defaults s =
     (case Booking_filter kwargs (bookings s) of
        [] \<Rightarrow>
          (case Booking_save now (Booking_init (extract_model_params kwargs defaults)) s of
             Inl e \<Rightarrow> Inl e
           | Inr (k, s') \<Rightarrow> Inr (k, True, s'))
      | [row] \<Rightarrow>
          (case Booking_save now (fold set_field defaults (obj_of_row row)) s of
             Inl e \<Rightarrow> Inl e
           | Inr (k, s') \<Rightarrow> Inr (k, False, s'))
      | _ \<Rightarrow> Inl MultipleObjectsReturned)"

section \<open>Views (views.py)\<close>

text \<open>
  A view returns its response and the database it leaves. An error response is one of
  the error bodies of the views; \<open>Unhandled\<close> is an exception no handler of the view
  catches (the framework answers 500).
\<close>

datatype api_error =
    Invalid_date_format
  | No_sports_available
  | Missing_required_fields
  | Invalid_status
  | Invalid_court_or_time_slot py_exc
  | Failed_to_update_booking py_exc
  | Unhandled py_exc

fun http_status :: "api_error \<Rightarrow> nat" where
  "http_status Invalid_date_format = 400"
| "http_status No_sports_available = 404"
| "http_status Missing_required_fields = 400"
| "http_status Invalid_status = 400"
| "http_status (Invalid_court_or_time_slot e) = 400"
| "http_status (Failed_to_update_booking e) = 500"
| "http_status (Unhandled e) = 500"

subsection \<open>\<open>court_status_api\<close>\<close>

record slot_entry =
  se_id :: string
  se_time :: string
  se_status :: string

record court_info =
  ci_id :: oid
  ci_name :: string
  ci_slots :: "(string \<times> slot_entry) list"

text \<open>
  The response of the view. \<open>currentTime\<close> is kept as the clock reading it is
  formatted from, and a court's \<open>id\<close> as the ObjectId whose string it is.
\<close>

record status_grid =
  g_date :: string
  g_currentTime :: nat
  g_sports :: "(string \<times> string) list"
  g_selectedSport :: string
  g_timeSlots :: "(nat \<times> string) list"
  g_courts :: "court_info list"

text \<open>\<open>enumerate(time_slots, 1)\<close>\<close>

definition enumerate1 :: "'a list \<Rightarrow> (nat \<times> 'a) list" where
  "enumerate1 xs = zip (map Suc [0..<length xs]) xs"

text \<open>
  The first loop over the slots of a court (lines 58-63): the dictionary \<open>slots\<close> is an
  association list in insertion order, \<open>slots[k] = v\<close> is \<open>AList.update\<close>.
\<close>

definition initial_slots :: "(nat \<times> TimeSlot) list \<Rightarrow> (string \<times> slot_entry) list" where
  "initial_slots enum =
     fold (\<lambda>(i, slot) slots.
             AList.update (str_nat i)
               \<lparr>se_id = str_nat i, se_time = formatted_slot slot, se_status = ''available''\<rparr> slots)
          enum []"

text \<open>
  The inner loop over the slots for one booking (lines 69-74): the position of the first
  slot whose \<open>_id\<close> is the booking's time slot, where the loop breaks.
\<close>

fun find_slot :: "(nat \<times> TimeSlot) list \<Rightarrow> oid \<Rightarrow> nat option" where
  "find_slot [] k = None"
| "find_slot ((i, slot) # rest) k = (if ts_id slot = k then Some i else find_slot rest k)"

definition apply_booking ::
  "(nat \<times> TimeSlot) list \<Rightarrow> Booking \<Rightarrow> (string \<times> slot_entry) list \<Rightarrow> (string \<times> slot_entry) list" where
  "apply_booking enum booking slots =
     (case find_slot enum (b_time_slot booking) of
        None \<Rightarrow> slots
      | Some i \<Rightarrow>
          (let slot_id = str_nat i
           in if slot_id \<in> fst ` set slots
              then AList.map_entry slot_id (\<lambda>e. e\<lparr>se_status := b_status booking\<rparr>) slots
              else slots))"

text \<open>The body of the loop over the courts (lines 50-76).\<close>

definition build_court_info :: "TimeSlot list \<Rightarrow> Booking list \<Rightarrow> Court \<Rightarrow> court_info" where
  "build_court_info slots_sorted bookings_q court =
     (let court_bookings = filter (\<lambda>b. b_court b = c_id court) bookings_q
      in \<lparr>ci_id = c_id court, ci_name = c_name court,
          ci_slots = fold (apply_booking (enumerate1 slots_sorted)) court_bookings
                       (initial_slots (enumerate1 slots_sorted))\<rparr>)"

text \<open>
  Lines 26-31: a missing or empty \<open>sport\<close> parameter (\<open>not sport_id\<close>) is replaced by
  the id of \<open>Sport.objects.first()\<close>; \<open>None\<close> stands for the 404 response.
\<close>

definition resolve_sport :: "string option \<Rightarrow> db \<Rightarrow> string option" where
  "resolve_sport sport s =
     (if sport = None \<or> sport = Some []
      then (case first_by sport_id (sports s) of
              None \<Rightarrow> None
            | Some first_sport \<Rightarrow> Some (sport_id first_sport))
      else sport)"

text \<open>Lines 34-35 (and 199-200 of \<open>time_slots_api\<close>).\<close>

definition ensure_time_slots :: "db \<Rightarrow> py_exc option \<times> db" where
  "ensure_time_slots s = (if time_slots s = [] then create_default_slots s else (None, s))"

text \<open>
  Lines 38-93. \<open>bookings\<close> follows \<open>court__sport__id\<close> through the court the booking
  refers to.
\<close>

definition build_grid :: "clock \<Rightarrow> string \<Rightarrow> date \<Rightarrow> string \<Rightarrow> db \<Rightarrow> status_grid" where
  "build_grid clk date_str booking_date sport s =
     (let slots_sorted = sort_key hour (time_slots s);
          courts_q = filter (\<lambda>c. c_sport c = sport) (courts s);
          bookings_q =
            filter (\<lambda>b. (\<exists>c \<in> set (courts s). c_id c = b_court b \<and> c_sport c = sport)
                         \<and> b_date b = booking_date)
              (bookings s)
      in \<lparr>g_date = date_str,
          g_currentTime = clock_now clk,
          g_sports = map (\<lambda>x. (sport_id x, sport_name x)) (sports s),
          g_selectedSport = sport,
          g_timeSlots = map (\<lambda>(i, slot). (i, formatted_slot slot)) (enumerate1 slots_sorted),
          g_courts = map (build_court_info slots_sorted bookings_q) courts_q\<rparr>)"

definition court_status_api ::
  "clock \<Rightarrow> string option \<Rightarrow> string option \<Rightarrow> db \<Rightarrow> (api_error + status_grid) \<times> db" where
  "court_status_api clk sport date_param s =
     (let date_str = (case date_param of None \<Rightarrow> isoformat (clock_today clk) | Some d \<Rightarrow> d)
      in case fromisoformat date_str of
           None \<Rightarrow> (Inl Invalid_date_format, s)
         | Some booking_date \<Rightarrow>
             (case resolve_sport sport s of
                None \<Rightarrow> (Inl No_sports_available, s)
              | Some sid \<Rightarrow>
                  (case ensure_time_slots s of
                     (Some e, s') \<Rightarrow> (Inl (Unhandled e), s')
                   | (None, s') \<Rightarrow> (Inr (build_grid clk date_str booking_date sid s'), s'))))"

subsection \<open>\<open>time_slots_api\<close>\<close>

definition time_slots_api :: "db \<Rightarrow> (api_error + (oid \<times> int \<times> string) list) \<times> db" where
  "time_slots_api s =
     (case ensure_time_slots s of
        (Some e, s') \<Rightarrow> (Inl (Unhandled e), s')
      | (None, s') \<Rightarrow>
          (Inr (map (\<lambda>t. (ts_id t, hour t, formatted_slot t)) (sort_key hour (time_slots s'))), s'))"

subsection \<open>\<open>update_booking_api\<close>\<close>

text \<open>
  The body of the request: \<open>courtId\<close>, \<open>timeSlotId\<close> and \<open>status\<close> as the JSON
  values they arrive as (\<open>JNull\<close> when the key is missing), and \<open>date\<close>, which is
  missing or a string. The view runs for an authenticated user only
  (\<open>IsAuthenticated\<close>); the model takes that user's name.
\<close>

record update_request =
  r_courtId :: json
  r_timeSlotId :: json
  r_status :: json
  r_date :: "string option"

text \<open>
  The \<open>booking\<close> object of a success response; \<open>rb_id\<close> is \<open>None\<close> on the delete
  path, whose response has no \<open>id\<close>.
\<close>

record booking_summary =
  rb_id :: "oid option"
  rb_court :: string
  rb_time_slot :: string
  rb_date :: string
  rb_status :: string
  rb_user :: string
  rb_action :: string

definition valid_statuses :: "string list" where
  "valid_statuses = [''available'', ''booked'', ''maintenance'', ''reserved'']"

text \<open>\<open>Court.objects.get(_id=k)\<close>\<close>

definition Court_get :: "oid \<Rightarrow> db \<Rightarrow> py_exc + Court" where
  "Court_get k s =
     (case filter (\<lambda>c. c_id c = k) (courts s) of
        [] \<Rightarrow> Inl DoesNotExist
      | [c] \<Rightarrow> Inr c
      | _ \<Rightarrow> Inl MultipleObjectsReturned)"

text \<open>
  Lines 124-132, the \<open>try\<close> block that turns the frontend slot id into a time slot and
  the court id into a court; the first exception is the result.
\<close>

definition resolve_slot_and_court :: "json \<Rightarrow> json \<Rightarrow> db \<Rightarrow> py_exc + (TimeSlot \<times> oid \<times> Court)" where
  "resolve_slot_and_court time_slot_id court_id s =
     (case py_int time_slot_id of
        Inl e \<Rightarrow> Inl e
      | Inr frontend_slot_id \<Rightarrow>
          (case py_index (sort_key hour (time_slots s)) (frontend_slot_id - 1) of
             Inl e \<Rightarrow> Inl e
           | Inr time_slot \<Rightarrow>
               (case ObjectId court_id of
                  Inl e \<Rightarrow> Inl e
                | Inr court_object_id \<Rightarrow>
                    (case Court_get court_object_id s of
                       Inl e \<Rightarrow> Inl e
                     | Inr court \<Rightarrow> Inr (time_slot, court_object_id, court)))))"

definition triple_kwargs :: "oid \<Rightarrow> oid \<Rightarrow> date \<Rightarrow> (string \<times> field_value) list" where
  "triple_kwargs court_object_id slot_oid booking_date =
     [(''court___id'', V_oid court_object_id),
      (''time_slot___id'', V_oid slot_oid),
      (''date'', V_date booking_date)]"

text \<open>Lines 134-181, after validation.\<close>

definition reconcile ::
  "clock \<Rightarrow> string \<Rightarrow> string \<Rightarrow> date \<Rightarrow> TimeSlot \<Rightarrow> oid \<Rightarrow> Court \<Rightarrow> db
     \<Rightarrow> (api_error + booking_summary) \<times> db" where
  "reconcile clk username new_status booking_date time_slot court_object_id court s =
     (let kwargs = triple_kwargs court_object_id (ts_id time_slot) booking_date
      in if new_status = ''available''
         then (let deleted_count = length (Booking_filter kwargs (bookings s))
               in (Inr \<lparr>rb_id = None, rb_court = c_name court,
                        rb_time_slot = formatted_slot time_slot,
                        rb_date = isoformat booking_date, rb_status = new_status,
                        rb_user = username,
                        rb_action = (if deleted_count > 0 then ''deleted'' else ''no_change'')\<rparr>,
                   s\<lparr>bookings := filter (\<lambda>b. b \<notin> set (Booking_filter kwargs (bookings s))) (bookings s)\<rparr>))
         else (case Booking_update_or_create (clock_now clk) kwargs
                      [(''status'', V_str new_status), (''user'', V_str username)] s of
                 Inl e \<Rightarrow> (Inl (Failed_to_update_booking e), s)
               | Inr (k, created, s') \<Rightarrow>
                   (Inr \<lparr>rb_id = Some k, rb_court = c_name court,
                         rb_time_slot = formatted_slot time_slot,
                         rb_date = isoformat booking_date, rb_status = new_status,
                         rb_user = username,
                         rb_action = (if created then ''created'' else ''updated'')\<rparr>,
                    s')))"

definition update_booking_api ::
  "clock \<Rightarrow> string \<Rightarrow> update_request \<Rightarrow> db \<Rightarrow> (api_error + booking_summary) \<times> db" where
  "update_booking_api clk username req s =
     (let court_id = r_courtId req;
          time_slot_id = r_timeSlotId req;
          new_status = r_status req;
          date_str = (case r_date req of None \<Rightarrow> isoformat (clock_today clk) | Some d \<Rightarrow> d)
      in if \<not> (truthy court_id \<and> truthy time_slot_id \<and> truthy new_status)
         then (Inl Missing_required_fields, s)
         else (case new_status of
                 JStr st \<Rightarrow>
                   if st \<in> set valid_statuses
                   then (case fromisoformat date_str of
                           None \<Rightarrow> (Inl Invalid_date_format, s)
                         | Some booking_date \<Rightarrow>
                             (case resolve_slot_and_court time_slot_id court_id s of
                                Inl e \<Rightarrow> (Inl (Invalid_court_or_time_slot e), s)
                              | Inr (time_slot, court_object_id, court) \<Rightarrow>
                                  reconcile clk username st booking_date time_slot
                                    court_object_id court s))
                   else (Inl Invalid_status, s)
               | _ \<Rightarrow> (Inl Invalid_status, s)))"

section \<open>Invariants of the store and notions used in the statements\<close>

text \<open>
  The uniqueness invariant of the Booking table: no two rows share their
  (court, time_slot, date) triple.
\<close>

definition unique_triples :: "Booking list \<Rightarrow> bool" where
  "unique_triples bs = distinct (map (\<lambda>b. (b_court b, b_time_slot b, b_date b)) bs)"

text \<open>
  The invariant of the Booking table the store maintains: triples are unique, primary
  keys are unique, and every key in use was handed out before \<open>next_oid\<close>.
\<close>

definition store_inv :: "db \<Rightarrow> bool" where
  "store_inv s =
     (unique_triples (bookings s) \<and> distinct (map b_id (bookings s))
      \<and> list_all (\<lambda>b. b_id b < next_oid s) (bookings s))"

text \<open>
  The states the write path reaches from an empty Booking table: by the views and by
  \<open>Booking.save\<close> on any instance.
\<close>

inductive reachable :: "db \<Rightarrow> bool" where
  start: "bookings s = [] \<Longrightarrow> reachable s"
| by_update: "reachable s \<Longrightarrow> reachable (snd (update_booking_api clk username req s))"
| by_save: "reachable s \<Longrightarrow> Booking_save now obj s = Inr (k, s') \<Longrightarrow> reachable s'"
| by_status: "reachable s \<Longrightarrow> reachable (snd (court_status_api clk sport date_param s))"
| by_slots: "reachable s \<Longrightarrow> reachable (snd (time_slots_api s))"

text \<open>The status a court's slot map holds under the key \<open>str(i)\<close>.\<close>

definition slot_status :: "court_info \<Rightarrow> nat \<Rightarrow> string option" where
  "slot_status ci i = map_option se_status (map_of (ci_slots ci) (str_nat i))"

text \<open>
  The date string a view works with: the \<open>date\<close> parameter, or today's date in ISO
  form when the request has none (lines 18 and 104).
\<close>

definition request_date :: "clock \<Rightarrow> string option \<Rightarrow> string" where
  "request_date clk date_param =
     (case date_param of None \<Rightarrow> isoformat (clock_today clk) | Some x \<Rightarrow> x)"

subsection \<open>Auxiliary notions of the proofs\<close>

text \<open>The slot map after the first loop, written as a map over the enumerated slots.\<close>

definition slot_rows :: "(nat \<times> TimeSlot) list \<Rightarrow> (string \<times> slot_entry) list" where
  "slot_rows enum =
     map (\<lambda>(i, slot). (str_nat i,
            \<lparr>se_id = str_nat i, se_time = formatted_slot slot, se_status = ''available''\<rparr>)) enum"

text \<open>What the second loop leaves alone in a slot map: keys, ids and times, in order.\<close>

definition slot_shape :: "(string \<times> slot_entry) list \<Rightarrow> (string \<times> string \<times> string) list" where
  "slot_shape slots = map (\<lambda>(k, e). (k, se_id e, se_time e)) slots"

text \<open>The keys of the TimeSlot table are distinct and below \<open>next_oid\<close>.\<close>

definition ids_fresh :: "db \<Rightarrow> bool" where
  "ids_fresh s = (distinct (map ts_id (time_slots s)) \<and> list_all (\<lambda>t. ts_id t < next_oid s) (time_slots s))"

section \<open>Example data\<close>

text \<open>
  A small database: two sports, two time slots stored out of hour order, one court per
  sport, and one booking of the badminton court for the 22:00 slot on 2024-01-01.
\<close>

definition ex_db :: db where
  "ex_db =
     \<lparr>sports = [\<lparr>sport_id = ''squash'', sport_name = ''Squash''\<rparr>,
                \<lparr>sport_id = ''badminton'', sport_name = ''Badminton''\<rparr>],
      time_slots = [\<lparr>ts_id = 11, hour = 22\<rparr>, \<lparr>ts_id = 10, hour = 7\<rparr>],
      courts = [\<lparr>c_id = 1, c_sport = ''badminton'', c_name = ''Badminton Court 1''\<rparr>,
                \<lparr>c_id = 2, c_sport = ''squash'', c_name = ''Squash Court 1''\<rparr>],
      bookings = [\<lparr>b_id = 20, b_court = 1, b_time_slot = 11, b_date = Date 2024 1 1,
                   b_user = ''bob'', b_status = ''booked'', b_created_at = 5, b_updated_at = 5\<rparr>],
      next_oid = 21\<rparr>"

definition ex_clock :: clock where
  "ex_clock = \<lparr>clock_today = Date 2024 1 2, clock_now = 100\<rparr>"

definition ex_court :: Court where
  "ex_court = \<lparr>c_id = 1, c_sport = ''badminton'', c_name = ''Badminton Court 1''\<rparr>"

definition ex_booking :: Booking where
  "ex_booking = \<lparr>b_id = 20, b_court = 1, b_time_slot = 11, b_date = Date 2024 1 1,
                  b_user = ''bob'', b_status = ''booked'', b_created_at = 5, b_updated_at = 5\<rparr>"

text \<open>The grid of the badminton courts for 2024-01-01 on this database.\<close>

definition ex_grid :: status_grid where
  "ex_grid =
     \<lparr>g_date = ''2024-01-01'', g_currentTime = 100,
      g_sports = [(''squash'', ''Squash''), (''badminton'', ''Badminton'')],
      g_selectedSport = ''badminton'',
      g_timeSlots = [(1, ''7:00 AM''), (2, ''10:00 PM'')],
      g_courts =
        [\<lparr>ci_id = 1, ci_name = ''Badminton Court 1'',
          ci_slots =
            [(''1'', \<lparr>se_id = ''1'', se_time = ''7:00 AM'', se_status = ''available''\<rparr>),
             (''2'', \<lparr>se_id = ''2'', se_time = ''10:00 PM'', se_status = ''booked''\<rparr>)]\<rparr>]\<rparr>"

text \<open>The same database before the booking was saved, and the instance that was saved.\<close>

definition ex_db_empty :: db where
  "ex_db_empty = ex_db\<lparr>bookings := [], next_oid := 20\<rparr>"

definition ex_obj :: Booking_obj where
  "ex_obj = \<lparr>pk = None, o_court = Some 1, o_time_slot = Some 11, o_date = Some (Date 2024 1 1),
             o_user = Some ''bob'', o_status = ''booked'', o_created_at = 0\<rparr>"

text \<open>The same database once the booking is deleted, and its grid.\<close>

definition ex_db_cleared :: db where
  "ex_db_cleared = ex_db\<lparr>bookings := []\<rparr>"

definition ex_grid_cleared :: status_grid where
  "ex_grid_cleared =
     \<lparr>g_date = ''2024-01-01'', g_currentTime = 100,
      g_sports = [(''squash'', ''Squash''), (''badminton'', ''Badminton'')],
      g_selectedSport = ''badminton'',
      g_timeSlots = [(1, ''7:00 AM''), (2, ''10:00 PM'')],
      g_courts =
        [\<lparr>ci_id = 1, ci_name = ''Badminton Court 1'',
          ci_slots =
            [(''1'', \<lparr>se_id = ''1'', se_time = ''7:00 AM'', se_status = ''available''\<rparr>),
             (''2'', \<lparr>se_id = ''2'', se_time = ''10:00 PM'', se_status = ''available''\<rparr>)]\<rparr>]\<rparr>"

text \<open>A request body for the badminton court on 2024-01-01.\<close>

definition ex_request :: "string \<Rightarrow> string \<Rightarrow> update_request" where
  "ex_request slot_id new_status =
     \<lparr>r_courtId = JStr ''000000000000000000000001'', r_timeSlotId = JStr slot_id,
      r_status = JStr new_status, r_date = Some ''2024-01-01''\<rparr>"


text \<open>
  An instance with the triple of the stored booking and status \<open>available\<close>, and the
  database that saving it on the empty Booking table leaves.
\<close>

definition ex_obj_available :: Booking_obj where
  "ex_obj_available = ex_obj\<lparr>o_status := ''available''\<rparr>"

definition ex_db_available :: db where
  "ex_db_available = ex_db\<lparr>bookings := [ex_booking\<lparr>b_status := ''available''\<rparr>]\<rparr>"

text \<open>
  A second booking of the badminton court, for the 7:00 slot of the same day, and the
  database that holds both bookings.
\<close>

definition ex_obj_slot7 :: Booking_obj where
  "ex_obj_slot7 = ex_obj\<lparr>o_time_slot := Some 10, o_user := Some ''carol''\<rparr>"

definition ex_booking_slot7 :: Booking where
  "ex_booking_slot7 = \<lparr>b_id = 21, b_court = 1, b_time_slot = 10, b_date = Date 2024 1 1,
                        b_user = ''carol'', b_status = ''booked'', b_created_at = 6, b_updated_at = 6\<rparr>"

definition ex_db_two :: db where
  "ex_db_two = ex_db\<lparr>bookings := [ex_booking, ex_booking_slot7], next_oid := 22\<rparr>"

section \<open>Decimal rendering is injective\<close>

lemma digit_char_code: "d < 10 \<Longrightarrow> of_char (digit_char d) = (48 + d :: nat)"
proof -
  assume "d < 10"
  then have "d \<in> {0, 1, 2, 3, 4, 5, 6, 7, 8, 9}" by auto
  then show ?thesis by (auto simp: digit_char_def)
qed

lemma digit_char_inj:
  assumes a: "a < 10" and b: "b < 10" and e: "digit_char a = digit_char b"
  shows "a = b"
proof -
  have "48 + a = (of_char (digit_char a) :: nat)"
    using digit_char_code [OF a] by (rule sym)
  also have "\<dots> = of_char (digit_char b)"
    by (simp only: e)
  also have "\<dots> = 48 + b"
    by (rule digit_char_code [OF b])
  finally show ?thesis
    by (simp only: add_left_cancel)
qed

lemma str_nat_nonempty: "str_nat n \<noteq> []"
  by (subst str_nat.simps) simp

lemma str_nat_small: "n < 10 \<Longrightarrow> str_nat n = [digit_char n]"
  by (subst str_nat.simps) simp

lemma str_nat_big: "\<not> n < 10 \<Longrightarrow> str_nat n = str_nat (n div 10) @ [digit_char (n mod 10)]"
  by (subst str_nat.simps) simp

lemma str_nat_inj: "str_nat m = str_nat n \<Longrightarrow> m = n"
proof (induction m arbitrary: n rule: str_nat.induct)
  case (1 m)
  show ?case
  proof (cases "m < 10")
    case small_m: True
    show ?thesis
    proof (cases "n < 10")
      case True
      with small_m "1.prems" show ?thesis
        by (simp add: str_nat_small digit_char_inj)
    next
      case False
      with small_m "1.prems" str_nat_nonempty [of "n div 10"] show ?thesis
        by (simp add: str_nat_small str_nat_big Cons_eq_append_conv)
    qed
  next
    case big_m: False
    show ?thesis
    proof (cases "n < 10")
      case True
      with big_m "1.prems" str_nat_nonempty [of "m div 10"] show ?thesis
        by (simp add: str_nat_small str_nat_big append_eq_Cons_conv)
    next
      case False
      with big_m "1.prems" have eq: "str_nat (m div 10) = str_nat (n div 10)"
        and d: "digit_char (m mod 10) = digit_char (n mod 10)"
        by (simp_all add: str_nat_big)
      from "1.IH" [OF big_m eq] have "m div 10 = n div 10" .
      moreover from d have "m mod 10 = n mod 10"
        by (rule digit_char_inj [rotated 2]) simp_all
      ultimately show ?thesis
        by (metis div_mult_mod_eq)
    qed
  qed
qed

section \<open>TimeSlot.formatted_slot\<close>

lemma str_int_7: "str_int 7 = ''7''"
  by (simp add: str_int_def str_nat_small digit_char_def)

lemma str_int_10: "str_int 10 = ''10''"
  by (simp add: str_int_def str_nat_small str_nat_big digit_char_def)

text \<open>
  Claim C6. For a time slot whose hour \<open>h\<close> lies in 0..23, \<open>formatted_slot\<close> is the
  hour on a 12-hour clock (a number \<open>k\<close> in 1..12 congruent to \<open>h\<close> modulo 12, so hours
  0 and 12 both give 12), followed by \<open>:00\<close>, a space and \<open>AM\<close> exactly when \<open>h < 12\<close>,
  \<open>PM\<close> otherwise. Hour 7 gives \<open>7:00 AM\<close> and hour 22 gives \<open>10:00 PM\<close>.
\<close>

theorem formatted_slot_clock12:
  assumes "0 \<le> hour t" and "hour t \<le> 23"
  shows "(\<exists>k. 1 \<le> k \<and> k \<le> 12 \<and> k mod 12 = hour t mod 12 \<and>
            formatted_slot t = str_int k @ '':00 '' @ (if hour t < 12 then ''AM'' else ''PM''))
         \<and> (hour t = 0 \<or> hour t = 12 \<longrightarrow> take 2 (formatted_slot t) = ''12'')
         \<and> (hour t = 7 \<longrightarrow> formatted_slot t = ''7:00 AM'')
         \<and> (hour t = 22 \<longrightarrow> formatted_slot t = ''10:00 PM'')"
proof -
  let ?k = "if hour t mod 12 = 0 then 12 else hour t mod 12"
  have k: "1 \<le> ?k \<and> ?k \<le> 12 \<and> ?k mod 12 = hour t mod 12"
  proof -
    have "0 \<le> hour t mod 12" and "hour t mod 12 < 12" by simp_all
    then show ?thesis by (cases "hour t mod 12 = 0") auto
  qed
  have f: "formatted_slot t = str_int ?k @ '':00 '' @ (if hour t < 12 then ''AM'' else ''PM'')"
    by (simp add: formatted_slot_def Let_def)
  have s12: "str_int 12 = ''12''"
    by (simp add: str_int_def str_nat_small str_nat_big digit_char_def)
  from k f have "\<exists>k. 1 \<le> k \<and> k \<le> 12 \<and> k mod 12 = hour t mod 12 \<and>
            formatted_slot t = str_int k @ '':00 '' @ (if hour t < 12 then ''AM'' else ''PM'')"
    by blast
  moreover have "hour t = 0 \<or> hour t = 12 \<Longrightarrow> take 2 (formatted_slot t) = ''12''"
    using f s12 by auto
  moreover have "hour t = 7 \<Longrightarrow> formatted_slot t = ''7:00 AM''"
    using f str_int_7 by simp
  moreover have "hour t = 22 \<Longrightarrow> formatted_slot t = ''10:00 PM''"
    using f str_int_10 by simp
  ultimately show ?thesis by simp
qed

theorem formatted_slot_clock12_witness:
  "0 \<le> hour \<lparr>ts_id = 0, hour = 22\<rparr> \<and> hour \<lparr>ts_id = 0, hour = 22\<rparr> \<le> 23
   \<and> formatted_slot \<lparr>ts_id = 0, hour = 22\<rparr> = ''10:00 PM''"
  using formatted_slot_clock12 [of "\<lparr>ts_id = 0, hour = 22\<rparr>"] by simp

section \<open>The slot map of a court\<close>

lemma update_fresh: "k \<notin> fst ` set al \<Longrightarrow> AList.update k v al = al @ [(k, v)]"
  by (induction al) auto

lemma enumerate1_keys: "map fst (enumerate1 xs) = map Suc [0..<length xs]"
  by (simp add: enumerate1_def)

lemma enumerate1_mem:
  "(i, x) \<in> set (enumerate1 xs) \<longleftrightarrow> 1 \<le> i \<and> i \<le> length xs \<and> x = xs ! (i - 1)"
proof
  assume "(i, x) \<in> set (enumerate1 xs)"
  then obtain k where "k < length xs" and "i = Suc k" and "x = xs ! k"
    by (auto simp: enumerate1_def set_zip)
  then show "1 \<le> i \<and> i \<le> length xs \<and> x = xs ! (i - 1)" by simp
next
  assume a: "1 \<le> i \<and> i \<le> length xs \<and> x = xs ! (i - 1)"
  then have "i - 1 < length xs" and "i = Suc (i - 1)" by arith+
  with a show "(i, x) \<in> set (enumerate1 xs)"
    unfolding enumerate1_def set_zip by (auto intro!: exI [of _ "i - 1"])
qed

lemma initial_slots_fold:
  "distinct (map fst enum) \<Longrightarrow> (\<forall>i \<in> fst ` set enum. str_nat i \<notin> fst ` set acc) \<Longrightarrow>
   fold (\<lambda>(i, slot) slots.
           AList.update (str_nat i)
             \<lparr>se_id = str_nat i, se_time = formatted_slot slot, se_status = ''available''\<rparr> slots)
        enum acc = acc @ slot_rows enum"
proof (induction enum arbitrary: acc)
  case Nil
  then show ?case by (simp add: slot_rows_def)
next
  case (Cons p enum)
  obtain i slot where p: "p = (i, slot)" by (cases p)
  let ?e = "\<lparr>se_id = str_nat i, se_time = formatted_slot slot, se_status = ''available''\<rparr>"
  from Cons.prems p have fresh: "str_nat i \<notin> fst ` set acc" by auto
  have step: "AList.update (str_nat i) ?e acc = acc @ [(str_nat i, ?e)]"
    using fresh by (rule update_fresh)
  have f: "\<forall>j \<in> fst ` set enum. str_nat j \<notin> fst ` set (acc @ [(str_nat i, ?e)])"
  proof
    fix j assume j: "j \<in> fst ` set enum"
    with Cons.prems p have "j \<noteq> i" by auto
    then have "str_nat j \<noteq> str_nat i" using str_nat_inj by blast
    moreover from Cons.prems j have "str_nat j \<notin> fst ` set acc" by auto
    ultimately show "str_nat j \<notin> fst ` set (acc @ [(str_nat i, ?e)])" by auto
  qed
  from Cons.prems have d: "distinct (map fst enum)" by simp
  have "fold (\<lambda>(i, slot) slots.
           AList.update (str_nat i)
             \<lparr>se_id = str_nat i, se_time = formatted_slot slot, se_status = ''available''\<rparr> slots)
        enum (acc @ [(str_nat i, ?e)]) = (acc @ [(str_nat i, ?e)]) @ slot_rows enum"
    by (rule Cons.IH [OF d f])
  with step p show ?case by (simp add: slot_rows_def)
qed

lemma initial_slots_rows: "initial_slots (enumerate1 xs) = slot_rows (enumerate1 xs)"
proof -
  have "distinct (map fst (enumerate1 xs))"
    by (simp add: enumerate1_keys distinct_map)
  then show ?thesis
    unfolding initial_slots_def using initial_slots_fold [of "enumerate1 xs" "[]"] by simp
qed

lemma map_entry_shape:
  "slot_shape (AList.map_entry k (\<lambda>e. e\<lparr>se_status := st\<rparr>) slots) = slot_shape slots"
  by (induction slots) (auto simp: slot_shape_def)

lemma apply_booking_shape: "slot_shape (apply_booking enum b slots) = slot_shape slots"
  by (simp add: apply_booking_def Let_def map_entry_shape split: option.splits)

lemma fold_apply_booking_shape:
  "slot_shape (fold (apply_booking enum) bs slots) = slot_shape slots"
  by (induction bs arbitrary: slots) (simp_all add: apply_booking_shape)

lemma slot_shape_keys: "map fst (slot_shape slots) = map fst slots"
  by (induction slots) (auto simp: slot_shape_def)

lemma slot_rows_shape:
  "slot_shape (slot_rows enum) = map (\<lambda>(i, slot). (str_nat i, str_nat i, formatted_slot slot)) enum"
  by (induction enum) (auto simp: slot_shape_def slot_rows_def)

lemma build_court_info_shape:
  "slot_shape (ci_slots (build_court_info ts bs c)) =
     map (\<lambda>(i, slot). (str_nat i, str_nat i, formatted_slot slot)) (enumerate1 ts)"
  by (simp add: build_court_info_def Let_def fold_apply_booking_shape initial_slots_rows slot_rows_shape)

lemma str_nat_keys_distinct: "distinct (map str_nat xs) = distinct xs"
  by (simp add: distinct_map inj_on_def str_nat_inj)

section \<open>Statuses written by the bookings\<close>

lemma find_slot_Some:
  "find_slot enum k = Some i \<Longrightarrow> \<exists>slot. (i, slot) \<in> set enum \<and> ts_id slot = k"
  by (induction enum) (auto split: if_splits)

lemma find_slot_distinct:
  "distinct (map (\<lambda>p. ts_id (snd p)) enum) \<Longrightarrow> (i, slot) \<in> set enum \<Longrightarrow>
   find_slot enum (ts_id slot) = Some i"
proof (induction enum)
  case Nil
  then show ?case by simp
next
  case (Cons p enum)
  obtain j sl where p: "p = (j, sl)" by (cases p)
  show ?case
  proof (cases "(i, slot) = (j, sl)")
    case True
    with p show ?thesis by simp
  next
    case False
    with Cons.prems p have mem: "(i, slot) \<in> set enum" by auto
    then have "ts_id slot \<in> (\<lambda>p. ts_id (snd p)) ` set enum" by force
    moreover from Cons.prems p have "ts_id sl \<notin> (\<lambda>p. ts_id (snd p)) ` set enum" by simp
    ultimately have "ts_id sl \<noteq> ts_id slot" by metis
    moreover from Cons.prems have "distinct (map (\<lambda>p. ts_id (snd p)) enum)" by simp
    ultimately show ?thesis using Cons.IH mem p by simp
  qed
qed

lemma map_of_apply_booking_other:
  "find_slot enum (b_time_slot b) \<noteq> Some i \<Longrightarrow>
   map_of (apply_booking enum b slots) (str_nat i) = map_of slots (str_nat i)"
  by (auto simp: apply_booking_def Let_def AList.map_of_map_entry str_nat_inj split: option.splits)

lemma map_of_apply_booking_hit:
  assumes "find_slot enum (b_time_slot b) = Some i"
  shows "map_of (apply_booking enum b slots) (str_nat i) =
     map_option (\<lambda>e. e\<lparr>se_status := b_status b\<rparr>) (map_of slots (str_nat i))"
proof (cases "str_nat i \<in> fst ` set slots")
  case True
  with assms show ?thesis
    by (auto simp: apply_booking_def Let_def AList.map_of_map_entry split: option.splits)
next
  case False
  then have "map_of slots (str_nat i) = None"
    by (simp add: map_of_eq_None_iff)
  with assms False show ?thesis
    by (simp add: apply_booking_def Let_def)
qed

lemma fold_apply_booking_other:
  "\<forall>b \<in> set bs. find_slot enum (b_time_slot b) \<noteq> Some i \<Longrightarrow>
   map_of (fold (apply_booking enum) bs slots) (str_nat i) = map_of slots (str_nat i)"
  by (induction bs arbitrary: slots) (simp_all add: map_of_apply_booking_other)

lemma fold_apply_booking_hit:
  "\<exists>b \<in> set bs. find_slot enum (b_time_slot b) = Some i \<Longrightarrow>
   \<forall>b \<in> set bs. find_slot enum (b_time_slot b) = Some i \<longrightarrow> b_status b = st \<Longrightarrow>
   map_of (fold (apply_booking enum) bs slots) (str_nat i) =
     map_option (\<lambda>e. e\<lparr>se_status := st\<rparr>) (map_of slots (str_nat i))"
proof (induction bs arbitrary: slots)
  case Nil
  then show ?case by simp
next
  case (Cons b bs)
  let ?slots' = "apply_booking enum b slots"
  have all: "\<forall>b \<in> set bs. find_slot enum (b_time_slot b) = Some i \<longrightarrow> b_status b = st"
    using Cons.prems by simp
  show ?case
  proof (cases "find_slot enum (b_time_slot b) = Some i")
    case hit: True
    with Cons.prems have st: "b_status b = st" by simp
    have here: "map_of ?slots' (str_nat i) =
        map_option (\<lambda>e. e\<lparr>se_status := st\<rparr>) (map_of slots (str_nat i))"
      using map_of_apply_booking_hit [OF hit] st by simp
    show ?thesis
    proof (cases "\<exists>b \<in> set bs. find_slot enum (b_time_slot b) = Some i")
      case True
      from Cons.IH [OF True all, of ?slots'] here show ?thesis
        by (simp add: option.map_comp comp_def)
    next
      case False
      then have "\<forall>b \<in> set bs. find_slot enum (b_time_slot b) \<noteq> Some i" by simp
      from fold_apply_booking_other [OF this, of ?slots'] here show ?thesis by simp
    qed
  next
    case miss: False
    with Cons.prems have ex: "\<exists>b \<in> set bs. find_slot enum (b_time_slot b) = Some i" by auto
    from Cons.IH [OF ex all, of ?slots'] map_of_apply_booking_other [OF miss, of slots]
    show ?thesis by simp
  qed
qed

lemma map_of_slot_rows:
  assumes "distinct (map fst enum)" and "(i, slot) \<in> set enum"
  shows "map_of (slot_rows enum) (str_nat i) =
           Some \<lparr>se_id = str_nat i, se_time = formatted_slot slot, se_status = ''available''\<rparr>"
proof -
  have "map fst (slot_rows enum) = map str_nat (map fst enum)"
    by (induction enum) (auto simp: slot_rows_def)
  with assms(1) have "distinct (map fst (slot_rows enum))"
    by (simp only: str_nat_keys_distinct)
  moreover from assms(2) have
    "(str_nat i, \<lparr>se_id = str_nat i, se_time = formatted_slot slot, se_status = ''available''\<rparr>)
       \<in> set (slot_rows enum)"
    by (force simp: slot_rows_def)
  ultimately show ?thesis by simp
qed

lemma enumerate1_distinct: "distinct (map fst (enumerate1 xs))"
  by (simp add: enumerate1_keys distinct_map)

lemma enumerate1_ts_distinct:
  "distinct (map ts_id xs) \<Longrightarrow> distinct (map (\<lambda>p. ts_id (snd p)) (enumerate1 xs))"
proof -
  assume d: "distinct (map ts_id xs)"
  have "map (\<lambda>p. ts_id (snd p)) (enumerate1 xs) = map ts_id (map snd (enumerate1 xs))" by simp
  also have "map snd (enumerate1 xs) = xs" by (simp add: enumerate1_def)
  finally show ?thesis using d by simp
qed

text \<open>The status of slot \<open>i\<close> of a court, from the bookings handed to the loop.\<close>

lemma build_court_info_available:
  assumes i: "1 \<le> i" "i \<le> length ts"
    and none: "\<forall>b \<in> set bs. b_court b = c_id c \<longrightarrow> b_time_slot b \<noteq> ts_id (ts ! (i - 1))"
  shows "slot_status (build_court_info ts bs c) i = Some ''available''"
proof -
  let ?enum = "enumerate1 ts"
  let ?cb = "filter (\<lambda>b. b_court b = c_id c) bs"
  from i have mem: "(i, ts ! (i - 1)) \<in> set ?enum" by (simp add: enumerate1_mem)
  have "\<forall>b \<in> set ?cb. find_slot ?enum (b_time_slot b) \<noteq> Some i"
  proof
    fix b assume b: "b \<in> set ?cb"
    show "find_slot ?enum (b_time_slot b) \<noteq> Some i"
    proof
      assume "find_slot ?enum (b_time_slot b) = Some i"
      then obtain slot where "(i, slot) \<in> set ?enum" and "ts_id slot = b_time_slot b"
        using find_slot_Some by blast
      then have "b_time_slot b = ts_id (ts ! (i - 1))" by (simp add: enumerate1_mem)
      with b none show False by simp
    qed
  qed
  from fold_apply_booking_other [OF this, of "initial_slots ?enum"]
  show ?thesis
    by (simp add: slot_status_def build_court_info_def Let_def initial_slots_rows
        map_of_slot_rows [OF enumerate1_distinct mem])
qed

lemma build_court_info_booked:
  assumes i: "1 \<le> i" "i \<le> length ts"
    and d: "distinct (map ts_id ts)"
    and b: "b \<in> set bs" "b_court b = c_id c" "b_time_slot b = ts_id (ts ! (i - 1))"
    and same: "\<forall>b' \<in> set bs. b_court b' = c_id c \<and> b_time_slot b' = ts_id (ts ! (i - 1))
                 \<longrightarrow> b_status b' = b_status b"
  shows "slot_status (build_court_info ts bs c) i = Some (b_status b)"
proof -
  let ?enum = "enumerate1 ts"
  let ?cb = "filter (\<lambda>b. b_court b = c_id c) bs"
  from i have mem: "(i, ts ! (i - 1)) \<in> set ?enum" by (simp add: enumerate1_mem)
  have hit: "find_slot ?enum (ts_id (ts ! (i - 1))) = Some i"
    by (rule find_slot_distinct [OF enumerate1_ts_distinct [OF d] mem])
  have ex: "\<exists>b \<in> set ?cb. find_slot ?enum (b_time_slot b) = Some i"
    using b hit by auto
  have all: "\<forall>b' \<in> set ?cb. find_slot ?enum (b_time_slot b') = Some i \<longrightarrow> b_status b' = b_status b"
  proof (intro ballI impI)
    fix b' assume b': "b' \<in> set ?cb" and f: "find_slot ?enum (b_time_slot b') = Some i"
    from f obtain slot where "(i, slot) \<in> set ?enum" and "ts_id slot = b_time_slot b'"
      using find_slot_Some by blast
    then have "b_time_slot b' = ts_id (ts ! (i - 1))" by (simp add: enumerate1_mem)
    with b' same show "b_status b' = b_status b" by simp
  qed
  from fold_apply_booking_hit [OF ex all, of "initial_slots ?enum"]
  show ?thesis
    by (simp add: slot_status_def build_court_info_def Let_def initial_slots_rows
        map_of_slot_rows [OF enumerate1_distinct mem])
qed

section \<open>Seeding the time slots\<close>

lemma filter_key_distinct:
  "distinct (map f xs) \<Longrightarrow> x \<in> set xs \<Longrightarrow> filter (\<lambda>t. f t = f x) xs = [x]"
proof (induction xs)
  case Nil
  then show ?case by simp
next
  case (Cons y xs)
  show ?case
  proof (cases "y = x")
    case True
    with Cons.prems have "f x \<notin> f ` set xs" by simp
    then have "\<forall>t \<in> set xs. f t \<noteq> f x" by (metis imageI)
    then have "filter (\<lambda>t. f t = f x) xs = []" by (simp add: filter_empty_conv)
    with True show ?thesis by simp
  next
    case False
    with Cons.prems have "x \<in> set xs" and "f y \<noteq> f x" by auto
    with Cons show ?thesis by simp
  qed
qed

lemma get_or_create_present:
  assumes "distinct (map hour (time_slots s))" and "h \<in> hour ` set (time_slots s)"
  shows "TimeSlot_get_or_create h s = Inr s"
proof -
  from assms(2) obtain t where t: "t \<in> set (time_slots s)" and h: "h = hour t" by auto
  from filter_key_distinct [OF assms(1) t] h show ?thesis
    by (simp add: TimeSlot_get_or_create_def)
qed

lemma get_or_create_absent:
  assumes "h \<notin> hour ` set (time_slots s)"
  shows "TimeSlot_get_or_create h s =
           Inr (s\<lparr>time_slots := time_slots s @ [\<lparr>ts_id = next_oid s, hour = h\<rparr>],
                  next_oid := Suc (next_oid s)\<rparr>)"
proof -
  from assms have "filter (\<lambda>t. hour t = h) (time_slots s) = []"
    by (auto simp: filter_empty_conv)
  then show ?thesis by (simp add: TimeSlot_get_or_create_def)
qed

lemma create_slots_spec:
  assumes "distinct (map hour (time_slots s))" and "distinct hs"
  shows "\<exists>s'. create_slots hs s = (None, s')
           \<and> map hour (time_slots s') =
               map hour (time_slots s) @ filter (\<lambda>h. h \<notin> hour ` set (time_slots s)) hs
           \<and> take (length (time_slots s)) (time_slots s') = time_slots s
           \<and> sports s' = sports s \<and> courts s' = courts s \<and> bookings s' = bookings s
           \<and> next_oid s \<le> next_oid s'
           \<and> (ids_fresh s \<longrightarrow> ids_fresh s')"
  using assms
proof (induction hs arbitrary: s)
  case Nil
  then show ?case by simp
next
  case (Cons h hs)
  from Cons.prems have dhs: "distinct hs" and hn: "h \<notin> set hs" by simp_all
  show ?case
  proof (cases "h \<in> hour ` set (time_slots s)")
    case True
    from Cons.IH [OF Cons.prems(1) dhs] get_or_create_present [OF Cons.prems(1) True] True
    show ?thesis by simp
  next
    case False
    let ?s1 = "s\<lparr>time_slots := time_slots s @ [\<lparr>ts_id = next_oid s, hour = h\<rparr>],
                  next_oid := Suc (next_oid s)\<rparr>"
    have d1: "distinct (map hour (time_slots ?s1))"
      using Cons.prems(1) False by auto
    have flt: "filter (\<lambda>x. x \<notin> hour ` set (time_slots ?s1)) hs =
               filter (\<lambda>x. x \<notin> hour ` set (time_slots s)) hs"
      using hn by (auto intro!: filter_cong)
    have fresh: "ids_fresh s \<Longrightarrow> ids_fresh ?s1"
      by (auto simp: ids_fresh_def list_all_iff)
    from Cons.IH [OF d1 dhs] obtain s' where s':
      "create_slots hs ?s1 = (None, s')"
      "map hour (time_slots s') =
         map hour (time_slots ?s1) @ filter (\<lambda>h. h \<notin> hour ` set (time_slots ?s1)) hs"
      "take (length (time_slots ?s1)) (time_slots s') = time_slots ?s1"
      "sports s' = sports ?s1" "courts s' = courts ?s1" "bookings s' = bookings ?s1"
      "next_oid ?s1 \<le> next_oid s'" "ids_fresh ?s1 \<longrightarrow> ids_fresh s'"
      by blast
    have pre: "take (length (time_slots s)) (time_slots s') = time_slots s"
    proof -
      have "take (length (time_slots s)) (take (length (time_slots ?s1)) (time_slots s')) =
            take (length (time_slots s)) (time_slots ?s1)"
        by (simp only: s'(3))
      then show ?thesis by (simp add: min_def)
    qed
    have "create_slots (h # hs) s = (None, s')"
      using get_or_create_absent [OF False] s'(1) by simp
    moreover have "map hour (time_slots s') =
        map hour (time_slots s) @ filter (\<lambda>x. x \<notin> hour ` set (time_slots s)) (h # hs)"
      using s'(2) flt False by simp
    ultimately show ?thesis
      using pre s'(4-8) fresh by auto
  qed
qed


lemma create_default_slots_spec:
  assumes "distinct (map hour (time_slots s))"
  shows "\<exists>s'. create_default_slots s = (None, s')
           \<and> map hour (time_slots s') =
               map hour (time_slots s) @ filter (\<lambda>h. h \<notin> hour ` set (time_slots s)) [7..22]
           \<and> take (length (time_slots s)) (time_slots s') = time_slots s
           \<and> sports s' = sports s \<and> courts s' = courts s \<and> bookings s' = bookings s
           \<and> next_oid s \<le> next_oid s'
           \<and> (ids_fresh s \<longrightarrow> ids_fresh s')"
  unfolding create_default_slots_def
  by (rule create_slots_spec [OF assms]) simp

text \<open>What lines 34-35 leave: the table as it was, or the sixteen default slots.\<close>

lemma ensure_time_slots_spec:
  "\<exists>s'. ensure_time_slots s = (None, s')
        \<and> sports s' = sports s \<and> courts s' = courts s \<and> bookings s' = bookings s
        \<and> next_oid s \<le> next_oid s'
        \<and> (if time_slots s = [] then map hour (time_slots s') = [7..22] \<and> ids_fresh s'
            else s' = s)"
proof (cases "time_slots s = []")
  case True
  then have "distinct (map hour (time_slots s))" and "ids_fresh s"
    by (simp_all add: ids_fresh_def)
  with create_default_slots_spec [of s] True show ?thesis
    by (auto simp: ensure_time_slots_def)
next
  case False
  then show ?thesis by (simp add: ensure_time_slots_def)
qed

section \<open>The status grid\<close>

lemma court_status_api_Inr:
  assumes "court_status_api clk sport date_param s = (Inr grid, s')"
  shows "\<exists>d sid. fromisoformat (g_date grid) = Some d
            \<and> resolve_sport sport s = Some sid
            \<and> ensure_time_slots s = (None, s')
            \<and> g_date grid = (case date_param of None \<Rightarrow> isoformat (clock_today clk) | Some x \<Rightarrow> x)
            \<and> grid = build_grid clk (g_date grid) d sid s'"
proof -
  let ?ds = "case date_param of None \<Rightarrow> isoformat (clock_today clk) | Some x \<Rightarrow> x"
  from assms obtain d where d: "fromisoformat ?ds = Some d"
    by (cases "fromisoformat ?ds") (auto simp: court_status_api_def Let_def)
  from assms d obtain sid where sid: "resolve_sport sport s = Some sid"
    by (cases "resolve_sport sport s") (auto simp: court_status_api_def Let_def)
  obtain r s1 where e: "ensure_time_slots s = (r, s1)" by (cases "ensure_time_slots s")
  from assms d sid e have "r = None" and "s1 = s'" and g: "grid = build_grid clk ?ds d sid s'"
    by (cases r; simp add: court_status_api_def Let_def)+
  from g have "g_date grid = ?ds" by (simp add: build_grid_def Let_def)
  with d sid e \<open>r = None\<close> \<open>s1 = s'\<close> g show ?thesis by simp
qed

lemma ex_grid_api:
  "court_status_api ex_clock (Some ''badminton'') (Some ''2024-01-01'') ex_db = (Inr ex_grid, ex_db)"
  by code_simp

lemma unique_triples_eq:
  "unique_triples bs \<Longrightarrow> b \<in> set bs \<Longrightarrow> b' \<in> set bs \<Longrightarrow>
   b_court b = b_court b' \<Longrightarrow> b_time_slot b = b_time_slot b' \<Longrightarrow> b_date b = b_date b' \<Longrightarrow>
   b = b'"
  unfolding unique_triples_def distinct_map by (auto dest: inj_onD)

lemma sort_key_ts_distinct:
  "distinct (map ts_id xs) \<Longrightarrow> distinct (map ts_id (sort_key hour xs))"
  by (simp add: distinct_map)

text \<open>
  Claim C10. In every grid \<open>court_status_api\<close> returns, the slot map of each court holds,
  in order, exactly one entry for each frontend index 1..N (N the number of time slots),
  under the key \<open>str(i)\<close>, with id \<open>str(i)\<close> and the formatted slot of the time slot at
  position \<open>i\<close> of the hour-sorted list. The right-hand sides do not mention the bookings:
  the loop over them changes statuses only.
\<close>

theorem slot_map_entries:
  assumes "court_status_api clk sport date_param s = (Inr grid, s')"
    and "ci \<in> set (g_courts grid)"
  shows "map (\<lambda>(k, e). (k, se_id e, se_time e)) (ci_slots ci) =
           map (\<lambda>(i, slot). (str_nat i, str_nat i, formatted_slot slot))
             (enumerate1 (sort_key hour (time_slots s')))
         \<and> map fst (ci_slots ci) = map str_nat [1..<Suc (length (time_slots s'))]
         \<and> distinct (map fst (ci_slots ci))"
proof -
  let ?ts = "sort_key hour (time_slots s')"
  from court_status_api_Inr [OF assms(1)] obtain d sid where
    g: "grid = build_grid clk (g_date grid) d sid s'" by blast
  from assms(2) obtain bs c where ci: "ci = build_court_info ?ts bs c"
    by (subst (asm) g) (auto simp: build_grid_def Let_def)
  have shape: "slot_shape (ci_slots ci) =
      map (\<lambda>(i, slot). (str_nat i, str_nat i, formatted_slot slot)) (enumerate1 ?ts)"
    unfolding ci by (rule build_court_info_shape)
  have "map fst (ci_slots ci) = map fst (slot_shape (ci_slots ci))"
    by (simp only: slot_shape_keys)
  also have "\<dots> = map str_nat (map fst (enumerate1 ?ts))"
    unfolding shape by (simp add: case_prod_unfold)
  also have "\<dots> = map str_nat [1..<Suc (length (time_slots s'))]"
    by (simp only: enumerate1_keys map_Suc_upt length_sort One_nat_def)
  finally have keys: "map fst (ci_slots ci) = map str_nat [1..<Suc (length (time_slots s'))]" .
  have "distinct (map fst (ci_slots ci))"
    unfolding keys by (simp only: str_nat_keys_distinct distinct_upt)
  with shape keys show ?thesis by (simp only: slot_shape_def simp_thms)
qed

theorem slot_map_entries_witness:
  "court_status_api ex_clock (Some ''badminton'') (Some ''2024-01-01'') ex_db = (Inr ex_grid, ex_db)
   \<and> hd (g_courts ex_grid) \<in> set (g_courts ex_grid)
   \<and> map (\<lambda>(k, e). (k, se_id e, se_time e)) (ci_slots (hd (g_courts ex_grid))) =
       [(''1'', ''1'', ''7:00 AM''), (''2'', ''2'', ''10:00 PM'')]
   \<and> map fst (ci_slots (hd (g_courts ex_grid))) = [''1'', ''2'']
   \<and> distinct (map fst (ci_slots (hd (g_courts ex_grid))))"
proof -
  have mem: "hd (g_courts ex_grid) \<in> set (g_courts ex_grid)"
    by (simp add: ex_grid_def)
  have shape: "map (\<lambda>(k, e). (k, se_id e, se_time e)) (ci_slots (hd (g_courts ex_grid))) =
       [(''1'', ''1'', ''7:00 AM''), (''2'', ''2'', ''10:00 PM'')]"
    by (simp add: ex_grid_def)
  have keys: "map fst (ci_slots (hd (g_courts ex_grid))) = [''1'', ''2'']"
    by (simp add: ex_grid_def)
  from slot_map_entries [OF ex_grid_api mem]
  have "distinct (map fst (ci_slots (hd (g_courts ex_grid))))"
    by (rule conjunct2 [THEN conjunct2])
  with ex_grid_api mem shape keys show ?thesis
    by (intro conjI)
qed

text \<open>
  Claim C1. On a store whose time slots have distinct keys and whose bookings have
  unique triples, for every court \<open>C\<close> of the selected sport and every index \<open>i\<close> in
  1..N, the entry under \<open>str(i)\<close> of \<open>C\<close>'s slot map has status \<open>available\<close> when no
  booking exists for (\<open>C\<close>, slot at index \<open>i\<close>, resolved date), and otherwise the status of
  that booking.
\<close>

theorem grid_status_reflects_bookings:
  assumes api: "court_status_api clk sport date_param s = (Inr grid, s')"
    and date: "fromisoformat (g_date grid) = Some d"
    and pk: "distinct (map ts_id (time_slots s))"
    and inv: "unique_triples (bookings s)"
    and court: "C \<in> set (courts s)" "c_sport C = g_selectedSport grid"
    and idx: "1 \<le> i" "i \<le> length (time_slots s')"
    and slot: "slot = sort_key hour (time_slots s') ! (i - 1)"
  shows "(\<exists>ci \<in> set (g_courts grid). ci_id ci = c_id C)
       \<and> (\<forall>ci \<in> set (g_courts grid). ci_id ci = c_id C \<longrightarrow>
            ((\<forall>b \<in> set (bookings s). \<not> same_triple (c_id C) (ts_id slot) d b)
                \<longrightarrow> slot_status ci i = Some ''available'')
          \<and> (\<forall>b \<in> set (bookings s). same_triple (c_id C) (ts_id slot) d b
                \<longrightarrow> slot_status ci i = Some (b_status b)))"
proof -
  let ?ts = "sort_key hour (time_slots s')"
  from court_status_api_Inr [OF api] date obtain sid where
    ens: "ensure_time_slots s = (None, s')" and g: "grid = build_grid clk (g_date grid) d sid s'"
    by auto
  from ensure_time_slots_spec [of s] ens have
    cs: "courts s' = courts s" and bs: "bookings s' = bookings s"
    and slots: "if time_slots s = [] then ids_fresh s' else s' = s"
    by (auto split: if_splits)
  from slots pk have "distinct (map ts_id (time_slots s'))"
    by (auto simp: ids_fresh_def split: if_splits)
  then have dts: "distinct (map ts_id ?ts)" by (rule sort_key_ts_distinct)
  let ?bq = "filter (\<lambda>b. (\<exists>c \<in> set (courts s). c_id c = b_court b \<and> c_sport c = sid)
                         \<and> b_date b = d) (bookings s)"
  have sel: "g_selectedSport grid = sid"
    by (subst g) (simp add: build_grid_def Let_def)
  have gc: "g_courts grid = map (build_court_info ?ts ?bq) (filter (\<lambda>c. c_sport c = sid) (courts s))"
    by (subst g) (simp add: build_grid_def Let_def cs bs)
  from idx have idx': "1 \<le> i" "i \<le> length ?ts" by simp_all
  have ex: "\<exists>ci \<in> set (g_courts grid). ci_id ci = c_id C"
  proof -
    from court sel have "build_court_info ?ts ?bq C \<in> set (g_courts grid)"
      unfolding gc by simp
    moreover have "ci_id (build_court_info ?ts ?bq C) = c_id C"
      by (simp add: build_court_info_def Let_def)
    ultimately show ?thesis by blast
  qed
  have all: "\<forall>ci \<in> set (g_courts grid). ci_id ci = c_id C \<longrightarrow>
            ((\<forall>b \<in> set (bookings s). \<not> same_triple (c_id C) (ts_id slot) d b)
                \<longrightarrow> slot_status ci i = Some ''available'')
          \<and> (\<forall>b \<in> set (bookings s). same_triple (c_id C) (ts_id slot) d b
                \<longrightarrow> slot_status ci i = Some (b_status b))"
  proof (intro ballI impI conjI)
    fix ci
    assume ci: "ci \<in> set (g_courts grid)" and id: "ci_id ci = c_id C"
    from ci obtain C' where C': "ci = build_court_info ?ts ?bq C'"
      unfolding gc by auto
    from id C' have idC: "c_id C' = c_id C"
      by (simp add: build_court_info_def Let_def)
    {
      assume none: "\<forall>b \<in> set (bookings s). \<not> same_triple (c_id C) (ts_id slot) d b"
      have "\<forall>b \<in> set ?bq. b_court b = c_id C' \<longrightarrow> b_time_slot b \<noteq> ts_id (?ts ! (i - 1))"
        using none idC slot by (auto simp: same_triple_def)
      from build_court_info_available [OF idx' this]
      show "slot_status ci i = Some ''available''" by (simp only: C')
    }
    {
      fix b
      assume b: "b \<in> set (bookings s)" and tr: "same_triple (c_id C) (ts_id slot) d b"
      from b tr court sel have bq: "b \<in> set ?bq"
        by (auto simp: same_triple_def)
      have same: "\<forall>b' \<in> set ?bq. b_court b' = c_id C' \<and> b_time_slot b' = ts_id (?ts ! (i - 1))
                 \<longrightarrow> b_status b' = b_status b"
      proof (intro ballI impI)
        fix b'
        assume b': "b' \<in> set ?bq"
          and m: "b_court b' = c_id C' \<and> b_time_slot b' = ts_id (?ts ! (i - 1))"
        from b' have "b' \<in> set (bookings s)" and "b_date b' = d" by simp_all
        with unique_triples_eq [OF inv this(1) b] m tr idC slot have "b' = b"
          by (simp add: same_triple_def)
        then show "b_status b' = b_status b" by simp
      qed
      from tr idC slot have "b_court b = c_id C'" and "b_time_slot b = ts_id (?ts ! (i - 1))"
        by (simp_all add: same_triple_def)
      from build_court_info_booked [OF idx' dts bq this same]
      show "slot_status ci i = Some (b_status b)" by (simp only: C')
    }
  qed
  from ex all show ?thesis by (rule conjI)
qed

theorem grid_status_reflects_bookings_witness:
  "court_status_api ex_clock (Some ''badminton'') (Some ''2024-01-01'') ex_db = (Inr ex_grid, ex_db)
   \<and> fromisoformat (g_date ex_grid) = Some (Date 2024 1 1)
   \<and> distinct (map ts_id (time_slots ex_db))
   \<and> unique_triples (bookings ex_db)
   \<and> ex_court \<in> set (courts ex_db) \<and> c_sport ex_court = g_selectedSport ex_grid
   \<and> (1::nat) \<le> 2 \<and> 2 \<le> length (time_slots ex_db)
   \<and> \<lparr>ts_id = 11, hour = 22\<rparr> = sort_key hour (time_slots ex_db) ! (2 - 1)
   \<and> hd (g_courts ex_grid) \<in> set (g_courts ex_grid)
   \<and> ci_id (hd (g_courts ex_grid)) = c_id ex_court
   \<and> ex_booking \<in> set (bookings ex_db)
   \<and> same_triple (c_id ex_court) 11 (Date 2024 1 1) ex_booking
   \<and> slot_status (hd (g_courts ex_grid)) 2 = Some ''booked''"
proof -
  have h2: "fromisoformat (g_date ex_grid) = Some (Date 2024 1 1)" by code_simp
  have h3: "distinct (map ts_id (time_slots ex_db))" by code_simp
  have h4: "unique_triples (bookings ex_db)" by code_simp
  have h5: "ex_court \<in> set (courts ex_db)" by code_simp
  have h6: "c_sport ex_court = g_selectedSport ex_grid" by code_simp
  have h7: "(1::nat) \<le> 2" by simp
  have h8: "2 \<le> length (time_slots ex_db)" by code_simp
  have h9: "\<lparr>ts_id = 11, hour = 22\<rparr> = sort_key hour (time_slots ex_db) ! (2 - 1)" by code_simp
  have m1: "hd (g_courts ex_grid) \<in> set (g_courts ex_grid)" by code_simp
  have m2: "ci_id (hd (g_courts ex_grid)) = c_id ex_court" by code_simp
  have m3: "ex_booking \<in> set (bookings ex_db)" by code_simp
  have m4': "same_triple (c_id ex_court) 11 (Date 2024 1 1) ex_booking" by code_simp
  then have m4: "same_triple (c_id ex_court) (ts_id \<lparr>ts_id = 11, hour = 22\<rparr>) (Date 2024 1 1) ex_booking"
    by simp
  have st: "b_status ex_booking = ''booked''" by code_simp
  from grid_status_reflects_bookings [OF ex_grid_api h2 h3 h4 h5 h6 h7 h8 h9] m1 m2 m3 m4
  have "slot_status (hd (g_courts ex_grid)) 2 = Some (b_status ex_booking)"
    by blast
  with st have "slot_status (hd (g_courts ex_grid)) 2 = Some ''booked''" by simp
  with ex_grid_api h2 h3 h4 h5 h6 h7 h8 h9 m1 m2 m3 m4' show ?thesis by (intro conjI)
qed

section \<open>Resolving the sport\<close>

lemma first_by_None: "first_by key xs = None \<longleftrightarrow> xs = []"
proof -
  have "sort_key key xs = [] \<longleftrightarrow> xs = []"
    by (metis length_0_conv length_sort)
  then show ?thesis
    by (auto simp: first_by_def split: list.splits)
qed

lemma resolve_sport_None:
  "resolve_sport sport s = None \<longleftrightarrow> (sport = None \<or> sport = Some []) \<and> sports s = []"
proof (cases "first_by sport_id (sports s)")
  case None
  then have "sports s = []" by (simp only: first_by_None)
  with None show ?thesis by (auto simp: resolve_sport_def)
next
  case (Some f)
  then have "sports s \<noteq> []" using first_by_None [of sport_id "sports s"] by auto
  with Some show ?thesis by (auto simp: resolve_sport_def)
qed

text \<open>\<open>first()\<close> returns a row of the table whose key is least.\<close>

lemma first_by_Some:
  assumes "first_by key xs = Some x"
  shows "x \<in> set xs \<and> (\<forall>y \<in> set xs. key x \<le> key y)"
proof -
  from assms obtain rest where r: "sort_key key xs = x # rest"
    by (auto simp: first_by_def split: list.splits)
  have "set (sort_key key xs) = set xs" by simp
  with r have s: "set xs = insert x (set rest)" by simp
  have "sorted (map key (sort_key key xs))" by (rule sorted_sort_key)
  with r have "\<forall>y \<in> set rest. key x \<le> key y" by simp
  with s show ?thesis by auto
qed

lemma resolve_sport_default:
  assumes "sport = None \<or> sport = Some []"
  shows "resolve_sport sport s = map_option sport_id (first_by sport_id (sports s))"
  using assms by (auto simp: resolve_sport_def split: option.splits)

section \<open>Seeding on read\<close>

lemma court_status_api_state:
  "snd (court_status_api clk sport date_param s) =
     (if fromisoformat (request_date clk date_param) = None \<or> resolve_sport sport s = None
      then s else snd (ensure_time_slots s))"
  by (auto simp: court_status_api_def request_date_def Let_def split: option.splits prod.splits)

lemma time_slots_api_state: "snd (time_slots_api s) = snd (ensure_time_slots s)"
  by (auto simp: time_slots_api_def split: option.splits prod.splits)











section \<open>Unknown and missing sports\<close>

lemma court_status_api_result:
  "fst (court_status_api clk sport date_param s) =
     (case fromisoformat (request_date clk date_param) of
        None \<Rightarrow> Inl Invalid_date_format
      | Some d \<Rightarrow>
          (case resolve_sport sport s of
             None \<Rightarrow> Inl No_sports_available
           | Some sid \<Rightarrow>
               Inr (build_grid clk (request_date clk date_param) d sid (snd (ensure_time_slots s)))))"
proof -
  obtain s' where "ensure_time_slots s = (None, s')"
    using ensure_time_slots_spec [of s] by blast
  then show ?thesis
    by (simp add: court_status_api_def request_date_def Let_def split: option.splits)
qed

text \<open>
  Claim C9, as amended. A call whose date parses and whose \<open>sport\<close> parameter is a
  non-empty id of no Sport returns a grid that echoes the id as \<open>selectedSport\<close> and has
  no courts (every court referring to a Sport that exists). An empty \<open>sport\<close> parameter
  is answered as a missing one is: when the date parses and the Sport table is not
  empty, with a grid whose \<open>selectedSport\<close> is the id of \<open>Sport.objects.first()\<close>, a
  Sport of least id. The 404 answer ``No sports available'' is given exactly when the
  date parses, the parameter is missing or empty, and the Sport table is empty.
\<close>

theorem unknown_sport_gives_empty_grid:
  "(fromisoformat (request_date clk date_param) \<noteq> None \<and> sport = Some sid \<and> sid \<noteq> []
      \<and> sid \<notin> sport_id ` set (sports s)
      \<and> (\<forall>c \<in> set (courts s). c_sport c \<in> sport_id ` set (sports s))
    \<longrightarrow> (\<exists>grid. fst (court_status_api clk sport date_param s) = Inr grid
            \<and> g_courts grid = [] \<and> g_selectedSport grid = sid))
   \<and> court_status_api clk (Some []) date_param s = court_status_api clk None date_param s
   \<and> (fromisoformat (request_date clk date_param) \<noteq> None
        \<and> (sport = None \<or> sport = Some []) \<and> sports s \<noteq> []
       \<longrightarrow> (\<exists>grid f. fst (court_status_api clk sport date_param s) = Inr grid
               \<and> first_by sport_id (sports s) = Some f
               \<and> g_selectedSport grid = sport_id f
               \<and> f \<in> set (sports s)
               \<and> (\<forall>x \<in> set (sports s). sport_id f \<le> sport_id x)))
   \<and> (fst (court_status_api clk sport date_param s) = Inl No_sports_available
        \<longleftrightarrow> fromisoformat (request_date clk date_param) \<noteq> None
              \<and> (sport = None \<or> sport = Some []) \<and> sports s = [])"
proof (intro conjI impI)
  assume a: "fromisoformat (request_date clk date_param) \<noteq> None \<and> sport = Some sid \<and> sid \<noteq> []
      \<and> sid \<notin> sport_id ` set (sports s)
      \<and> (\<forall>c \<in> set (courts s). c_sport c \<in> sport_id ` set (sports s))"
  then obtain d where d: "fromisoformat (request_date clk date_param) = Some d" by auto
  from a have r: "resolve_sport sport s = Some sid"
    by (simp add: resolve_sport_def)
  let ?s' = "snd (ensure_time_slots s)"
  let ?grid = "build_grid clk (request_date clk date_param) d sid ?s'"
  have cs: "courts ?s' = courts s"
    using ensure_time_slots_spec [of s] by auto
  from a have "\<forall>c \<in> set (courts s). c_sport c \<noteq> sid" by metis
  then have "filter (\<lambda>c. c_sport c = sid) (courts s) = []"
    by (simp add: filter_empty_conv)
  then have "g_courts ?grid = []" and "g_selectedSport ?grid = sid"
    by (simp_all add: build_grid_def Let_def cs)
  moreover have "fst (court_status_api clk sport date_param s) = Inr ?grid"
    by (simp add: court_status_api_result d r)
  ultimately show "\<exists>grid. fst (court_status_api clk sport date_param s) = Inr grid
            \<and> g_courts grid = [] \<and> g_selectedSport grid = sid"
    by blast
next
  have "resolve_sport (Some []) s = resolve_sport None s"
    by (simp add: resolve_sport_def)
  then show "court_status_api clk (Some []) date_param s = court_status_api clk None date_param s"
    unfolding court_status_api_def by (simp only:)
next
  assume a: "fromisoformat (request_date clk date_param) \<noteq> None
        \<and> (sport = None \<or> sport = Some []) \<and> sports s \<noteq> []"
  then obtain d where d: "fromisoformat (request_date clk date_param) = Some d" by auto
  from a obtain f where f: "first_by sport_id (sports s) = Some f"
    using first_by_None [of sport_id "sports s"] by (cases "first_by sport_id (sports s)") auto
  from a have "resolve_sport sport s = map_option sport_id (first_by sport_id (sports s))"
    by (intro resolve_sport_default) simp
  with f have r: "resolve_sport sport s = Some (sport_id f)" by simp
  let ?grid = "build_grid clk (request_date clk date_param) d (sport_id f) (snd (ensure_time_slots s))"
  have "fst (court_status_api clk sport date_param s) = Inr ?grid"
    by (simp add: court_status_api_result d r)
  moreover have "g_selectedSport ?grid = sport_id f"
    by (simp add: build_grid_def Let_def)
  ultimately show "\<exists>grid f. fst (court_status_api clk sport date_param s) = Inr grid
               \<and> first_by sport_id (sports s) = Some f
               \<and> g_selectedSport grid = sport_id f
               \<and> f \<in> set (sports s)
               \<and> (\<forall>x \<in> set (sports s). sport_id f \<le> sport_id x)"
    using f first_by_Some [OF f] by blast
next
  show "fst (court_status_api clk sport date_param s) = Inl No_sports_available
        \<longleftrightarrow> fromisoformat (request_date clk date_param) \<noteq> None
              \<and> (sport = None \<or> sport = Some []) \<and> sports s = []"
    by (auto simp: court_status_api_result resolve_sport_None [symmetric] split: option.splits)
qed

text \<open>
  The claim as stated fails for the empty id: \<open>?sport=\<close> is given and matches no Sport,
  yet the grid selects the first sport and lists its courts.
\<close>

theorem empty_sport_counterexample:
  "[] \<notin> sport_id ` set (sports ex_db)
   \<and> map_sum id g_selectedSport
        (fst (court_status_api ex_clock (Some []) (Some ''2024-01-01'') ex_db)) = Inr ''badminton''
   \<and> map_sum id (\<lambda>g. map ci_name (g_courts g))
        (fst (court_status_api ex_clock (Some []) (Some ''2024-01-01'') ex_db))
       = Inr [''Badminton Court 1'']"
  by code_simp

theorem unknown_sport_gives_empty_grid_witness:
  "fromisoformat (request_date ex_clock (Some ''2024-01-01'')) = Some (Date 2024 1 1)
   \<and> ''tennis'' \<noteq> []
   \<and> ''tennis'' \<notin> sport_id ` set (sports ex_db)
   \<and> list_all (\<lambda>c. c_sport c \<in> sport_id ` set (sports ex_db)) (courts ex_db)
   \<and> map_sum id g_courts
        (fst (court_status_api ex_clock (Some ''tennis'') (Some ''2024-01-01'') ex_db)) = Inr []
   \<and> map_sum id g_selectedSport
        (fst (court_status_api ex_clock (Some ''tennis'') (Some ''2024-01-01'') ex_db)) = Inr ''tennis''
   \<and> sports ex_db \<noteq> []
   \<and> first_by sport_id (sports ex_db) = Some \<lparr>sport_id = ''badminton'', sport_name = ''Badminton''\<rparr>
   \<and> map_sum id g_selectedSport
        (fst (court_status_api ex_clock (Some []) (Some ''2024-01-01'') ex_db)) = Inr ''badminton''"
proof -
  have d: "fromisoformat (request_date ex_clock (Some ''2024-01-01'')) = Some (Date 2024 1 1)"
    by code_simp
  have n: "''tennis'' \<noteq> []" by simp
  have u: "''tennis'' \<notin> sport_id ` set (sports ex_db)" by code_simp
  have ri: "list_all (\<lambda>c. c_sport c \<in> sport_id ` set (sports ex_db)) (courts ex_db)" by code_simp
  then have ri': "\<forall>c \<in> set (courts ex_db). c_sport c \<in> sport_id ` set (sports ex_db)"
    by (simp only: list_all_iff)
  from unknown_sport_gives_empty_grid
         [of ex_clock "Some ''2024-01-01''" "Some ''tennis''" "''tennis''" ex_db] d n u ri'
  obtain grid where g: "fst (court_status_api ex_clock (Some ''tennis'') (Some ''2024-01-01'') ex_db) = Inr grid"
    and "g_courts grid = []" and "g_selectedSport grid = ''tennis''"
    by auto
  then have "map_sum id g_courts
        (fst (court_status_api ex_clock (Some ''tennis'') (Some ''2024-01-01'') ex_db)) = Inr []"
    and "map_sum id g_selectedSport
        (fst (court_status_api ex_clock (Some ''tennis'') (Some ''2024-01-01'') ex_db)) = Inr ''tennis''"
    by simp_all
  note known = this
  have ne: "sports ex_db \<noteq> []" by code_simp
  have fb: "first_by sport_id (sports ex_db)
              = Some \<lparr>sport_id = ''badminton'', sport_name = ''Badminton''\<rparr>"
    by code_simp
  note unknown_sport_gives_empty_grid
         [of ex_clock "Some ''2024-01-01''" "Some []" "[]" ex_db,
          THEN conjunct2, THEN conjunct2, THEN conjunct1]
  with d ne obtain grid2 f
    where g2: "fst (court_status_api ex_clock (Some []) (Some ''2024-01-01'') ex_db) = Inr grid2"
      and f: "first_by sport_id (sports ex_db) = Some f"
      and sel: "g_selectedSport grid2 = sport_id f"
    by auto
  from f fb have "f = \<lparr>sport_id = ''badminton'', sport_name = ''Badminton''\<rparr>" by simp
  then have "sport_id f = ''badminton''" by simp
  with g2 sel have first: "map_sum id g_selectedSport
        (fst (court_status_api ex_clock (Some []) (Some ''2024-01-01'') ex_db)) = Inr ''badminton''"
    by simp
  from d n u ri known ne fb first show ?thesis by (intro conjI)
qed

section \<open>The uniqueness invariant\<close>

lemma same_triple_iff:
  "same_triple c t d b \<longleftrightarrow> (b_court b, b_time_slot b, b_date b) = (c, t, d)"
  by (auto simp: same_triple_def)

lemma replace_row_unique:
  assumes "distinct (map b_id bs)" and "distinct (map f bs)"
    and "\<forall>b \<in> set bs. f b = f new \<longrightarrow> b_id b = k"
  shows "distinct (map f (map (\<lambda>b. if b_id b = k then new else b) bs))"
  using assms
proof (induction bs)
  case Nil
  then show ?case by simp
next
  case (Cons b bs)
  let ?g = "\<lambda>b. if b_id b = k then new else b"
  from Cons have IH: "distinct (map f (map ?g bs))" by simp
  show ?case
  proof (cases "b_id b = k")
    case True
    with Cons.prems(1) have "k \<notin> b_id ` set bs" by simp
    then have nok: "\<forall>b' \<in> set bs. b_id b' \<noteq> k" by (metis imageI)
    then have same: "map ?g bs = bs" by (induction bs) auto
    from nok Cons.prems(3) have "f new \<notin> f ` set bs" by auto
    with True same Cons.prems show ?thesis by simp
  next
    case False
    with Cons.prems(3) have ne: "f b \<noteq> f new" by auto
    have "f b \<notin> set (map f (map ?g bs))"
    proof
      assume "f b \<in> set (map f (map ?g bs))"
      then obtain b' where b': "b' \<in> set bs" and e: "f b = f (?g b')" by auto
      from e ne have "?g b' = b'" by (auto split: if_splits)
      with e b' Cons.prems(2) show False by auto
    qed
    moreover from False have "map f (map ?g (b # bs)) = f b # map f (map ?g bs)" by simp
    ultimately show ?thesis using IH by (simp only: distinct.simps simp_thms)
  qed
qed

lemma replace_row_ids:
  "map b_id (map (\<lambda>b. if b_id b = k then new else b) bs) = map b_id bs" if "b_id new = k"
  using that by (induction bs) auto

lemma Model_save_cases:
  "Model_save now obj s = Inr r \<Longrightarrow> \<exists>c t d u. save_table now obj c t d u s = Inr r"
  by (cases "o_court obj"; cases "o_time_slot obj"; cases "o_date obj"; cases "o_user obj")
     (auto simp: Model_save_def)

text \<open>The three writes of \<open>save_table\<close>, and when each is refused.\<close>

lemma save_table_insert:
  "pk obj = None \<Longrightarrow>
   save_table now obj c t d u s =
     (if list_ex (same_triple c t d) (bookings s) then Inl IntegrityError
      else Inr (next_oid s,
                s\<lparr>bookings := bookings s @
                     [\<lparr>b_id = next_oid s, b_court = c, b_time_slot = t, b_date = d,
                       b_user = u, b_status = o_status obj,
                       b_created_at = now, b_updated_at = now\<rparr>],
                  next_oid := Suc (next_oid s)\<rparr>))"
  by (simp add: save_table_def)

lemma save_table_update:
  "pk obj = Some k \<Longrightarrow> list_ex (\<lambda>b. b_id b = k) (bookings s) \<Longrightarrow>
   save_table now obj c t d u s =
     (if list_ex (\<lambda>b. same_triple c t d b \<and> b_id b \<noteq> k) (bookings s) then Inl IntegrityError
      else Inr (k,
                s\<lparr>bookings :=
                    map (\<lambda>b. if b_id b = k
                              then \<lparr>b_id = k, b_court = c, b_time_slot = t,
                                    b_date = d, b_user = u, b_status = o_status obj,
                                    b_created_at = o_created_at obj,
                                    b_updated_at = now\<rparr>
                              else b)
                        (bookings s)\<rparr>))"
  by (simp add: save_table_def)

lemma save_table_insert_pk:
  "pk obj = Some k \<Longrightarrow> \<not> list_ex (\<lambda>b. b_id b = k) (bookings s) \<Longrightarrow>
   save_table now obj c t d u s =
     (if list_ex (same_triple c t d) (bookings s) then Inl IntegrityError
      else Inr (k,
                s\<lparr>bookings := bookings s @
                     [\<lparr>b_id = k, b_court = c, b_time_slot = t, b_date = d,
                       b_user = u, b_status = o_status obj,
                       b_created_at = now, b_updated_at = now\<rparr>],
                  next_oid := max (next_oid s) (Suc k)\<rparr>))"
  by (simp add: save_table_def)

lemma save_table_frame:
  "save_table now obj c t d u s = Inr (k, s') \<Longrightarrow>
   sports s' = sports s \<and> time_slots s' = time_slots s \<and> courts s' = courts s"
proof (cases "pk obj")
  case None
  assume "save_table now obj c t d u s = Inr (k, s')"
  then show ?thesis
    unfolding save_table_insert [OF None] by (auto split: if_splits)
next
  case (Some k')
  assume "save_table now obj c t d u s = Inr (k, s')"
  then show ?thesis
    by (cases "list_ex (\<lambda>b. b_id b = k') (bookings s)")
       (auto simp: save_table_update [OF Some] save_table_insert_pk [OF Some] split: if_splits)
qed

lemma Model_save_frame:
  "Model_save now obj s = Inr (k, s') \<Longrightarrow>
   sports s' = sports s \<and> time_slots s' = time_slots s \<and> courts s' = courts s"
  using Model_save_cases save_table_frame by blast

lemma append_row_inv:
  assumes "store_inv s"
    and "(b_court r, b_time_slot r, b_date r)
           \<notin> (\<lambda>b. (b_court b, b_time_slot b, b_date b)) ` set (bookings s)"
    and "b_id r \<notin> b_id ` set (bookings s)" and "b_id r < n" and "next_oid s \<le> n"
  shows "store_inv (s\<lparr>bookings := bookings s @ [r], next_oid := n\<rparr>)"
proof -
  from assms(1) have ut: "distinct (map (\<lambda>b. (b_court b, b_time_slot b, b_date b)) (bookings s))"
    and ids: "distinct (map b_id (bookings s))"
    and lt: "\<forall>b \<in> set (bookings s). b_id b < next_oid s"
    by (simp_all add: store_inv_def unique_triples_def list_all_iff)
  from ut assms(2) have "unique_triples (bookings s @ [r])"
    by (simp add: unique_triples_def)
  moreover from ids assms(3) have "distinct (map b_id (bookings s @ [r]))"
    by simp
  moreover have "\<forall>b \<in> set (bookings s @ [r]). b_id b < n"
  proof
    fix b assume "b \<in> set (bookings s @ [r])"
    then have "b \<in> set (bookings s) \<or> b = r" by auto
    with lt assms(4,5) show "b_id b < n" by (metis less_le_trans)
  qed
  moreover have "bookings (s\<lparr>bookings := bookings s @ [r], next_oid := n\<rparr>) = bookings s @ [r]"
    and "next_oid (s\<lparr>bookings := bookings s @ [r], next_oid := n\<rparr>) = n"
    by simp_all
  ultimately show ?thesis
    by (simp only: store_inv_def list_all_iff simp_thms)
qed

lemma replace_row_inv:
  assumes "store_inv s" and "b_id new = k"
    and "\<forall>b \<in> set (bookings s).
           (b_court b, b_time_slot b, b_date b) = (b_court new, b_time_slot new, b_date new)
             \<longrightarrow> b_id b = k"
  shows "store_inv (s\<lparr>bookings := map (\<lambda>b. if b_id b = k then new else b) (bookings s)\<rparr>)"
proof -
  let ?tr = "\<lambda>b. (b_court b, b_time_slot b, b_date b)"
  let ?bs' = "map (\<lambda>b. if b_id b = k then new else b) (bookings s)"
  from assms(1) have ut: "distinct (map ?tr (bookings s))"
    and ids: "distinct (map b_id (bookings s))"
    and lt: "\<forall>b \<in> set (bookings s). b_id b < next_oid s"
    by (simp_all add: store_inv_def unique_triples_def list_all_iff)
  from replace_row_unique [OF ids ut assms(3)] have A: "unique_triples ?bs'"
    by (simp only: unique_triples_def)
  have B: "map b_id ?bs' = map b_id (bookings s)"
    using assms(2) by (rule replace_row_ids)
  with ids have B': "distinct (map b_id ?bs')" by (simp only:)
  have "\<forall>b \<in> set ?bs'. b_id b < next_oid s"
  proof
    fix b assume "b \<in> set ?bs'"
    then obtain b0 where b0: "b0 \<in> set (bookings s)"
      and b: "b = (if b_id b0 = k then new else b0)" by auto
    from b assms(2) have "b_id b = b_id b0" by (cases "b_id b0 = k") simp_all
    with lt b0 show "b_id b < next_oid s" by simp
  qed
  moreover have "bookings (s\<lparr>bookings := ?bs'\<rparr>) = ?bs'"
    and "next_oid (s\<lparr>bookings := ?bs'\<rparr>) = next_oid s"
    by simp_all
  ultimately show ?thesis
    using A B' by (simp only: store_inv_def list_all_iff simp_thms)
qed

lemma save_table_inv:
  assumes inv: "store_inv s" and save: "save_table now obj c t d u s = Inr (k, s')"
  shows "store_inv s'"
proof -
  let ?tr = "\<lambda>b. (b_court b, b_time_slot b, b_date b)"
  from inv have lt: "\<forall>b \<in> set (bookings s). b_id b < next_oid s"
    by (simp add: store_inv_def list_all_iff)
  show ?thesis
  proof (cases "pk obj")
    case None
    let ?r = "\<lparr>b_id = next_oid s, b_court = c, b_time_slot = t, b_date = d,
                b_user = u, b_status = o_status obj,
                b_created_at = now, b_updated_at = now\<rparr>"
    from save have nt: "\<not> list_ex (same_triple c t d) (bookings s)"
      unfolding save_table_insert [OF None] by (cases "list_ex (same_triple c t d) (bookings s)") simp_all
    with save have s': "s' = s\<lparr>bookings := bookings s @ [?r], next_oid := Suc (next_oid s)\<rparr>"
      unfolding save_table_insert [OF None] by auto
    from nt have "?tr ?r \<notin> ?tr ` set (bookings s)"
      unfolding list_ex_iff same_triple_iff by force
    moreover from lt have "b_id ?r \<notin> b_id ` set (bookings s)" by auto
    ultimately show ?thesis
      unfolding s' by (intro append_row_inv [OF inv]) simp_all
  next
    case (Some k')
    show ?thesis
    proof (cases "list_ex (\<lambda>b. b_id b = k') (bookings s)")
      case True
      let ?new = "\<lparr>b_id = k', b_court = c, b_time_slot = t, b_date = d, b_user = u,
                    b_status = o_status obj, b_created_at = o_created_at obj,
                    b_updated_at = now\<rparr>"
      from save have
        no: "\<not> list_ex (\<lambda>b. same_triple c t d b \<and> b_id b \<noteq> k') (bookings s)"
        unfolding save_table_update [OF Some True]
        by (cases "list_ex (\<lambda>b. same_triple c t d b \<and> b_id b \<noteq> k') (bookings s)") simp_all
      with save have
        s': "s' = s\<lparr>bookings := map (\<lambda>b. if b_id b = k' then ?new else b) (bookings s)\<rparr>"
        unfolding save_table_update [OF Some True] by auto
      from no have "\<forall>b \<in> set (bookings s). ?tr b = ?tr ?new \<longrightarrow> b_id b = k'"
        unfolding list_ex_iff same_triple_iff by force
      then show ?thesis
        unfolding s' by (intro replace_row_inv [OF inv]) simp_all
    next
      case False
      let ?r = "\<lparr>b_id = k', b_court = c, b_time_slot = t, b_date = d,
                  b_user = u, b_status = o_status obj,
                  b_created_at = now, b_updated_at = now\<rparr>"
      from save have nt: "\<not> list_ex (same_triple c t d) (bookings s)"
        unfolding save_table_insert_pk [OF Some False]
        by (cases "list_ex (same_triple c t d) (bookings s)") simp_all
      with save have
        s': "s' = s\<lparr>bookings := bookings s @ [?r], next_oid := max (next_oid s) (Suc k')\<rparr>"
        unfolding save_table_insert_pk [OF Some False] by auto
      from nt have "?tr ?r \<notin> ?tr ` set (bookings s)"
        unfolding list_ex_iff same_triple_iff by force
      moreover from False have "b_id ?r \<notin> b_id ` set (bookings s)"
        by (auto simp: list_ex_iff)
      ultimately show ?thesis
        unfolding s' by (intro append_row_inv [OF inv]) simp_all
    qed
  qed
qed

lemma Model_save_inv: "store_inv s \<Longrightarrow> Model_save now obj s = Inr (k, s') \<Longrightarrow> store_inv s'"
  using Model_save_cases save_table_inv by blast

lemma Booking_save_cases:
  "Booking_save now obj s = Inr (k, s') \<Longrightarrow> \<exists>obj'. Model_save now obj' s = Inr (k, s')"
  by (auto simp: Booking_save_def split: option.splits)

lemma Booking_save_inv: "store_inv s \<Longrightarrow> Booking_save now obj s = Inr (k, s') \<Longrightarrow> store_inv s'"
  using Booking_save_cases Model_save_inv by blast

lemma Booking_save_frame:
  "Booking_save now obj s = Inr (k, s') \<Longrightarrow>
   sports s' = sports s \<and> time_slots s' = time_slots s \<and> courts s' = courts s"
  using Booking_save_cases Model_save_frame by blast

lemma update_or_create_cases:
  "Booking_update_or_create now kwargs defaults s = Inr (k, created, s') \<Longrightarrow>
   \<exists>obj. Booking_save now obj s = Inr (k, s')"
  by (auto simp: Booking_update_or_create_def split: list.splits sum.splits)

lemma filter_inv:
  "store_inv s \<Longrightarrow> store_inv (s\<lparr>bookings := filter P (bookings s)\<rparr>)"
  by (auto simp: store_inv_def unique_triples_def list_all_iff distinct_map_filter)

lemma reconcile_state:
  "snd (reconcile clk username st d slot coid court s) = s
   \<or> (\<exists>P. snd (reconcile clk username st d slot coid court s) = s\<lparr>bookings := filter P (bookings s)\<rparr>)
   \<or> (\<exists>obj k. Booking_save (clock_now clk) obj s
                = Inr (k, snd (reconcile clk username st d slot coid court s)))"
proof (cases "st = ''available''")
  case True
  then show ?thesis by (simp add: reconcile_def Let_def) blast
next
  case False
  show ?thesis
  proof (cases "Booking_update_or_create (clock_now clk)
                  (triple_kwargs coid (ts_id slot) d)
                  [(''status'', V_str st), (''user'', V_str username)] s")
    case (Inl e)
    with False show ?thesis by (simp add: reconcile_def Let_def)
  next
    case (Inr r)
    obtain k created s' where r: "r = (k, created, s')" by (cases r)
    from update_or_create_cases [OF Inr [unfolded r]] Inr r False show ?thesis
      by (auto simp: reconcile_def Let_def)
  qed
qed

lemma update_booking_api_state:
  "snd (update_booking_api clk username req s) = s
   \<or> (\<exists>st d slot coid court.
        snd (update_booking_api clk username req s)
          = snd (reconcile clk username st d slot coid court s))"
proof (cases "\<not> (truthy (r_courtId req) \<and> truthy (r_timeSlotId req) \<and> truthy (r_status req))")
  case True
  then show ?thesis by (simp add: update_booking_api_def Let_def)
next
  case ok: False
  show ?thesis
  proof (cases "r_status req")
    case (JStr st)
    show ?thesis
    proof (cases "st \<in> set valid_statuses")
      case valid: True
      show ?thesis
      proof (cases "fromisoformat (request_date clk (r_date req))")
        case None
        with ok JStr valid show ?thesis
          by (simp add: update_booking_api_def Let_def request_date_def)
      next
        case (Some d)
        show ?thesis
        proof (cases "resolve_slot_and_court (r_timeSlotId req) (r_courtId req) s")
          case (Inl e)
          with ok JStr valid Some show ?thesis
            by (simp add: update_booking_api_def Let_def request_date_def)
        next
          case (Inr r)
          obtain slot coid court where "r = (slot, coid, court)" by (cases r)
          with Inr ok JStr valid Some have
            "snd (update_booking_api clk username req s)
               = snd (reconcile clk username st d slot coid court s)"
            by (auto simp: update_booking_api_def Let_def request_date_def split: if_splits)
          then show ?thesis by blast
        qed
      qed
    next
      case False
      with ok JStr show ?thesis by (simp add: update_booking_api_def Let_def)
    qed
  qed (use ok in \<open>simp_all add: update_booking_api_def Let_def\<close>)
qed

lemma reconcile_inv:
  "store_inv s \<Longrightarrow> store_inv (snd (reconcile clk username st d slot coid court s))"
  using reconcile_state [of clk username st d slot coid court s]
  by (auto simp: filter_inv dest: Booking_save_inv)

lemma reconcile_frame:
  "sports (snd (reconcile clk username st d slot coid court s)) = sports s
   \<and> time_slots (snd (reconcile clk username st d slot coid court s)) = time_slots s
   \<and> courts (snd (reconcile clk username st d slot coid court s)) = courts s"
  using reconcile_state [of clk username st d slot coid court s]
  by (auto dest: Booking_save_frame)

lemma update_booking_api_inv:
  "store_inv s \<Longrightarrow> store_inv (snd (update_booking_api clk username req s))"
  using update_booking_api_state [of clk username req s]
  by (auto simp: reconcile_inv)

lemma update_booking_api_frame:
  "sports (snd (update_booking_api clk username req s)) = sports s
   \<and> time_slots (snd (update_booking_api clk username req s)) = time_slots s
   \<and> courts (snd (update_booking_api clk username req s)) = courts s"
  using update_booking_api_state [of clk username req s]
  by (auto simp: reconcile_frame)

lemma ensure_time_slots_inv: "store_inv s \<Longrightarrow> store_inv (snd (ensure_time_slots s))"
proof -
  assume inv: "store_inv s"
  from ensure_time_slots_spec [of s] obtain s' where
    "ensure_time_slots s = (None, s')" "bookings s' = bookings s" "next_oid s \<le> next_oid s'"
    by blast
  with inv show ?thesis
    by (auto simp: store_inv_def list_all_iff)
qed

lemma reachable_inv: "reachable s \<Longrightarrow> store_inv s"
proof (induction rule: reachable.induct)
  case (start s)
  then show ?case by (simp add: store_inv_def unique_triples_def)
next
  case (by_update s clk username req)
  then show ?case by (simp add: update_booking_api_inv)
next
  case (by_save s now obj k s')
  then show ?case using Booking_save_inv by blast
next
  case (by_status s clk sport date_param)
  then show ?case by (simp add: court_status_api_state ensure_time_slots_inv)
next
  case (by_slots s)
  then show ?case by (simp add: time_slots_api_state ensure_time_slots_inv)
qed

section \<open>The queryset calls on the booking triple\<close>

lemma Booking_filter_triple:
  "Booking_filter (triple_kwargs c t d) bs = filter (same_triple c t d) bs"
  unfolding Booking_filter_def
  by (rule filter_cong) (auto simp: triple_kwargs_def booking_lookup_def same_triple_def)

lemma lookup_sep_court: "has_lookup_sep ''court___id''"
  by code_simp

lemma lookup_sep_time_slot: "has_lookup_sep ''time_slot___id''"
  by code_simp

lemma lookup_sep_date: "\<not> has_lookup_sep ''date''"
  by code_simp

lemma extract_params_triple:
  "extract_model_params (triple_kwargs c t d) [(''status'', V_str st), (''user'', V_str u)] =
     [(''date'', V_date d), (''status'', V_str st), (''user'', V_str u)]"
  by (simp add: extract_model_params_def triple_kwargs_def lookup_sep_court lookup_sep_time_slot
      lookup_sep_date)

text \<open>
  The instance \<open>update_or_create\<close> builds when no booking matches: the lookups
  \<open>court___id\<close> and \<open>time_slot___id\<close> are not among its parameters, so it has neither
  court nor time slot.
\<close>

lemma created_instance:
  "Booking_init (extract_model_params (triple_kwargs c t d)
                   [(''status'', V_str st), (''user'', V_str u)]) =
     \<lparr>pk = None, o_court = None, o_time_slot = None, o_date = Some d, o_user = Some u,
      o_status = st, o_created_at = 0\<rparr>"
  by (simp add: extract_params_triple Booking_init_def)

lemma updated_instance:
  "fold set_field [(''status'', V_str st), (''user'', V_str u)] (obj_of_row row) =
     (obj_of_row row)\<lparr>o_status := st, o_user := Some u\<rparr>"
  by (simp add: set_field_def)

lemma update_or_create_no_match:
  assumes "\<not> list_ex (same_triple c t d) (bookings s)"
  shows "Booking_update_or_create now (triple_kwargs c t d)
           [(''status'', V_str st), (''user'', V_str u)] s = Inl RelatedObjectDoesNotExist"
proof -
  from assms have "filter (same_triple c t d) (bookings s) = []"
    by (simp add: list_ex_iff filter_empty_conv)
  then show ?thesis
    by (simp add: Booking_update_or_create_def Booking_filter_triple created_instance
        Booking_save_def)
qed

lemma update_or_create_one_match:
  assumes "filter (same_triple c t d) (bookings s) = [row]"
  shows "Booking_update_or_create now (triple_kwargs c t d)
           [(''status'', V_str st), (''user'', V_str u)] s =
         (case save_table now ((obj_of_row row)\<lparr>o_status := st, o_user := Some u\<rparr>)
                 (b_court row) (b_time_slot row) (b_date row) u s of
            Inl e \<Rightarrow> Inl e
          | Inr (k, s') \<Rightarrow> Inr (k, False, s'))"
  unfolding Booking_update_or_create_def Booking_filter_triple updated_instance assms
  by (simp add: Booking_save_def Model_save_def obj_of_row_def)

section \<open>The reconciler\<close>

lemma valid_status_nonempty: "st \<in> set valid_statuses \<Longrightarrow> st \<noteq> []"
  by (auto simp: valid_statuses_def)

lemma update_booking_api_valid:
  assumes "truthy (r_courtId req)" and "truthy (r_timeSlotId req)"
    and "r_status req = JStr st" and "st \<in> set valid_statuses"
    and "fromisoformat (request_date clk (r_date req)) = Some d"
    and "resolve_slot_and_court (r_timeSlotId req) (r_courtId req) s = Inr (slot, coid, court)"
  shows "update_booking_api clk username req s = reconcile clk username st d slot coid court s"
  using assms valid_status_nonempty [OF assms(4)]
  by (simp add: update_booking_api_def Let_def request_date_def)

lemma delete_matching:
  "filter (\<lambda>b. b \<notin> set (filter P bs)) bs = filter (\<lambda>b. \<not> P b) bs"
  by (rule filter_cong) auto

lemma reconcile_available:
  "reconcile clk username ''available'' d slot coid court s =
     (Inr \<lparr>rb_id = None, rb_court = c_name court, rb_time_slot = formatted_slot slot,
           rb_date = isoformat d, rb_status = ''available'', rb_user = username,
           rb_action = (if list_ex (same_triple coid (ts_id slot) d) (bookings s)
                        then ''deleted'' else ''no_change'')\<rparr>,
      s\<lparr>bookings := filter (\<lambda>b. \<not> same_triple coid (ts_id slot) d b) (bookings s)\<rparr>)"
proof -
  have "(0 < length (filter (same_triple coid (ts_id slot) d) (bookings s)))
          = list_ex (same_triple coid (ts_id slot) d) (bookings s)"
    by (simp add: list_ex_iff filter_empty_conv)
  then show ?thesis
    unfolding reconcile_def Let_def Booking_filter_triple delete_matching by simp
qed

lemma reconcile_no_match:
  assumes "st \<noteq> ''available''" and "\<not> list_ex (same_triple coid (ts_id slot) d) (bookings s)"
  shows "reconcile clk username st d slot coid court s =
           (Inl (Failed_to_update_booking RelatedObjectDoesNotExist), s)"
  using assms by (simp add: reconcile_def Let_def update_or_create_no_match)

lemma unique_match:
  assumes "unique_triples bs" and "row \<in> set bs" and "same_triple c t d row"
  shows "filter (same_triple c t d) bs = [row]"
proof -
  have "filter (\<lambda>b. (b_court b, b_time_slot b, b_date b) = (b_court row, b_time_slot row, b_date row)) bs
          = [row]"
    using assms(1,2) unfolding unique_triples_def by (rule filter_key_distinct)
  moreover from assms(3) have
    "same_triple c t d = (\<lambda>b. (b_court b, b_time_slot b, b_date b) = (b_court row, b_time_slot row, b_date row))"
    by (auto simp: same_triple_def fun_eq_iff)
  ultimately show ?thesis by simp
qed

lemma reconcile_match:
  assumes st: "st \<noteq> ''available''"
    and inv: "unique_triples (bookings s)"
    and row: "row \<in> set (bookings s)" "same_triple coid (ts_id slot) d row"
  shows "reconcile clk username st d slot coid court s =
           (Inr \<lparr>rb_id = Some (b_id row), rb_court = c_name court,
                 rb_time_slot = formatted_slot slot, rb_date = isoformat d, rb_status = st,
                 rb_user = username, rb_action = ''updated''\<rparr>,
            s\<lparr>bookings :=
                map (\<lambda>b. if b_id b = b_id row
                          then row\<lparr>b_status := st, b_user := username,
                                   b_updated_at := clock_now clk\<rparr>
                          else b)
                    (bookings s)\<rparr>)"
proof -
  let ?obj = "(obj_of_row row)\<lparr>o_status := st, o_user := Some username\<rparr>"
  have one: "filter (same_triple coid (ts_id slot) d) (bookings s) = [row]"
    by (rule unique_match [OF inv row])
  from row(2) have tr: "b_court row = coid" "b_time_slot row = ts_id slot" "b_date row = d"
    by (simp_all add: same_triple_def)
  have pk: "pk ?obj = Some (b_id row)" by (simp add: obj_of_row_def)
  from row(1) have ex: "list_ex (\<lambda>b. b_id b = b_id row) (bookings s)"
    by (auto simp: list_ex_iff)
  have no: "\<not> list_ex (\<lambda>b. same_triple coid (ts_id slot) d b \<and> b_id b \<noteq> b_id row) (bookings s)"
  proof
    assume "list_ex (\<lambda>b. same_triple coid (ts_id slot) d b \<and> b_id b \<noteq> b_id row) (bookings s)"
    then obtain b where "b \<in> set (bookings s)" "same_triple coid (ts_id slot) d b" "b_id b \<noteq> b_id row"
      by (auto simp: list_ex_iff)
    then have "b \<in> set (filter (same_triple coid (ts_id slot) d) (bookings s))" and "b \<noteq> row"
      by auto
    then show False unfolding one by simp
  qed
  have new: "\<lparr>b_id = b_id row, b_court = coid, b_time_slot = ts_id slot, b_date = d,
               b_user = username, b_status = o_status ?obj, b_created_at = o_created_at ?obj,
               b_updated_at = clock_now clk\<rparr>
             = row\<lparr>b_status := st, b_user := username, b_updated_at := clock_now clk\<rparr>"
    using tr by (simp add: obj_of_row_def)
  have "save_table (clock_now clk) ?obj coid (ts_id slot) d username s =
          Inr (b_id row,
               s\<lparr>bookings :=
                   map (\<lambda>b. if b_id b = b_id row
                             then row\<lparr>b_status := st, b_user := username,
                                      b_updated_at := clock_now clk\<rparr>
                             else b)
                       (bookings s)\<rparr>)"
    unfolding save_table_update [OF pk ex] using no by (simp only: if_False new)
  with st show ?thesis
    by (simp add: reconcile_def Let_def update_or_create_one_match [OF one] tr)
qed

lemma reconcile_no_available_rows:
  assumes "unique_triples (bookings s)"
    and "b \<in> set (bookings (snd (reconcile clk username st d slot coid court s)))"
    and "b_status b = ''available''"
  shows "b \<in> set (bookings s)"
proof (cases "st = ''available''")
  case True
  with assms(2) show ?thesis by (simp add: reconcile_available)
next
  case False
  show ?thesis
  proof (cases "list_ex (same_triple coid (ts_id slot) d) (bookings s)")
    case no: False
    from assms(2) show ?thesis by (simp add: reconcile_no_match [OF False no])
  next
    case True
    then obtain row where row: "row \<in> set (bookings s)" "same_triple coid (ts_id slot) d row"
      by (auto simp: list_ex_iff)
    from assms(2) obtain b0 where b0: "b0 \<in> set (bookings s)"
      and b: "b = (if b_id b0 = b_id row
                   then row\<lparr>b_status := st, b_user := username, b_updated_at := clock_now clk\<rparr>
                   else b0)"
      unfolding reconcile_match [OF False assms(1) row] by auto
    show ?thesis
    proof (cases "b_id b0 = b_id row")
      case True
      with b have "b_status b = st" by simp
      with assms(3) False show ?thesis by simp
    next
      case False
      with b b0 show ?thesis by simp
    qed
  qed
qed

lemma update_booking_api_no_available_rows:
  assumes "unique_triples (bookings s)"
    and "b \<in> set (bookings (snd (update_booking_api clk username req s)))"
    and "b_status b = ''available''"
  shows "b \<in> set (bookings s)"
  using update_booking_api_state [of clk username req s] assms
  by (auto dest: reconcile_no_available_rows)

text \<open>
  Claim C3, as amended. In every state reached from an empty Booking table by the views
  and by \<open>Booking.save\<close>, at most one booking exists per (court, time_slot, date)
  triple; the state after \<open>update_booking_api\<close> (delete path and upsert path) and after
  any successful \<open>Booking.save\<close> has unique triples again. The absence of a row is how
  \<open>update_booking_api\<close> encodes an available slot, and only it: it stores no row of
  status \<open>available\<close> (such a row of its final state was there before the call), and
  after a request that sets \<open>available\<close> no row has the resolved triple. Nothing is
  claimed of the status of the rows that \<open>Booking.save\<close> stores.
\<close>

theorem booking_triple_invariant:
  assumes "reachable s"
  shows "unique_triples (bookings s)
       \<and> unique_triples (bookings (snd (update_booking_api clk username req s)))
       \<and> (\<forall>k s'. Booking_save now obj s = Inr (k, s') \<longrightarrow> unique_triples (bookings s'))
       \<and> (\<forall>b \<in> set (bookings (snd (update_booking_api clk username req s))).
             b_status b = ''available'' \<longrightarrow> b \<in> set (bookings s))
       \<and> (truthy (r_courtId req) \<and> truthy (r_timeSlotId req)
            \<and> r_status req = JStr ''available''
            \<and> fromisoformat (request_date clk (r_date req)) = Some d
            \<and> resolve_slot_and_court (r_timeSlotId req) (r_courtId req) s = Inr (slot, coid, court)
           \<longrightarrow> \<not> list_ex (same_triple coid (ts_id slot) d)
                    (bookings (snd (update_booking_api clk username req s))))"
proof -
  from assms have inv: "store_inv s" by (rule reachable_inv)
  then have u: "unique_triples (bookings s)" by (simp add: store_inv_def)
  from update_booking_api_inv [OF inv]
  have u1: "unique_triples (bookings (snd (update_booking_api clk username req s)))"
    by (simp add: store_inv_def)
  have u2: "\<forall>k s'. Booking_save now obj s = Inr (k, s') \<longrightarrow> unique_triples (bookings s')"
    using Booking_save_inv [OF inv] by (auto simp: store_inv_def)
  have a1: "\<forall>b \<in> set (bookings (snd (update_booking_api clk username req s))).
             b_status b = ''available'' \<longrightarrow> b \<in> set (bookings s)"
    using update_booking_api_no_available_rows [OF u] by blast
  have a2: "truthy (r_courtId req) \<and> truthy (r_timeSlotId req)
            \<and> r_status req = JStr ''available''
            \<and> fromisoformat (request_date clk (r_date req)) = Some d
            \<and> resolve_slot_and_court (r_timeSlotId req) (r_courtId req) s = Inr (slot, coid, court)
           \<longrightarrow> \<not> list_ex (same_triple coid (ts_id slot) d)
                    (bookings (snd (update_booking_api clk username req s)))"
  proof
    assume h: "truthy (r_courtId req) \<and> truthy (r_timeSlotId req)
            \<and> r_status req = JStr ''available''
            \<and> fromisoformat (request_date clk (r_date req)) = Some d
            \<and> resolve_slot_and_court (r_timeSlotId req) (r_courtId req) s = Inr (slot, coid, court)"
    have v: "''available'' \<in> set valid_statuses" by (simp add: valid_statuses_def)
    from h have "update_booking_api clk username req s
                   = reconcile clk username ''available'' d slot coid court s"
      by (intro update_booking_api_valid [OF _ _ _ v]) simp_all
    then show "\<not> list_ex (same_triple coid (ts_id slot) d)
                    (bookings (snd (update_booking_api clk username req s)))"
      by (simp add: reconcile_available list_ex_iff)
  qed
  from u u1 u2 a1 a2 show ?thesis by (intro conjI)
qed

lemma ex_db_reachable: "reachable ex_db"
proof -
  have "bookings ex_db_empty = []" by code_simp
  then have "reachable ex_db_empty" by (rule reachable.start)
  moreover have "Booking_save 5 ex_obj ex_db_empty = Inr (20, ex_db)" by code_simp
  ultimately show ?thesis by (rule reachable.by_save)
qed

text \<open>
  \<open>Booking.save\<close> has no test on the status: saving an instance of status \<open>available\<close>
  on the empty Booking table stores a row of that status for its triple, in a reachable
  state, and the grid of that state is the grid of the table without the row.
\<close>

theorem available_row_counterexample:
  "reachable ex_db_available
   \<and> Booking_save 5 ex_obj_available ex_db_empty = Inr (20, ex_db_available)
   \<and> list_ex (\<lambda>b. same_triple 1 11 (Date 2024 1 1) b \<and> b_status b = ''available'')
        (bookings ex_db_available)
   \<and> court_status_api ex_clock (Some ''badminton'') (Some ''2024-01-01'') ex_db_available
       = (Inr ex_grid_cleared, ex_db_available)
   \<and> court_status_api ex_clock (Some ''badminton'') (Some ''2024-01-01'') ex_db_cleared
       = (Inr ex_grid_cleared, ex_db_cleared)"
proof -
  have "bookings ex_db_empty = []" by code_simp
  then have e: "reachable ex_db_empty" by (rule reachable.start)
  have s: "Booking_save 5 ex_obj_available ex_db_empty = Inr (20, ex_db_available)"
    by code_simp
  from e s have r: "reachable ex_db_available" by (rule reachable.by_save)
  have l: "list_ex (\<lambda>b. same_triple 1 11 (Date 2024 1 1) b \<and> b_status b = ''available'')
        (bookings ex_db_available)"
    by code_simp
  have g: "court_status_api ex_clock (Some ''badminton'') (Some ''2024-01-01'') ex_db_available
       = (Inr ex_grid_cleared, ex_db_available)"
    by code_simp
  have g': "court_status_api ex_clock (Some ''badminton'') (Some ''2024-01-01'') ex_db_cleared
       = (Inr ex_grid_cleared, ex_db_cleared)"
    by code_simp
  from r s l g g' show ?thesis by (intro conjI)
qed

text \<open>
  A reachable state with two bookings. The store refuses the save that would move the
  second booking onto the triple of the first; \<open>Booking.save\<close> of a new instance with the
  triple of the first booking writes to that booking and adds no row.
\<close>

lemma ex_db_two_reachable: "reachable ex_db_two"
proof -
  have "Booking_save 6 ex_obj_slot7 ex_db = Inr (21, ex_db_two)" by code_simp
  with ex_db_reachable show ?thesis by (rule reachable.by_save)
qed

lemma save_onto_taken_triple_refused:
  "Booking_save 7 ((obj_of_row ex_booking_slot7)\<lparr>o_time_slot := Some 11\<rparr>) ex_db_two
     = Inl IntegrityError"
  by code_simp

lemma save_same_triple_updates:
  "map_sum id (\<lambda>(k, s'). (k, map b_id (bookings s'), map b_user (bookings s')))
     (Booking_save 7 (ex_obj\<lparr>o_user := Some ''dave''\<rparr>) ex_db_two)
     = Inr (20, [20, 21], [''dave'', ''carol''])"
  by code_simp

theorem booking_triple_invariant_witness:
  "reachable ex_db_two
   \<and> map (\<lambda>b. (b_court b, b_time_slot b, b_date b)) (bookings ex_db_two)
       = [(1, 11, Date 2024 1 1), (1, 10, Date 2024 1 1)]
   \<and> unique_triples (bookings ex_db_two)
   \<and> unique_triples (bookings (snd (update_booking_api ex_clock ''alice''
                                       (ex_request ''2'' ''maintenance'') ex_db_two)))
   \<and> length (bookings (snd (update_booking_api ex_clock ''alice''
                               (ex_request ''2'' ''maintenance'') ex_db_two))) = 2
   \<and> unique_triples (bookings (snd (update_booking_api ex_clock ''alice''
                                       (ex_request ''1'' ''available'') ex_db_two)))
   \<and> filter (same_triple 1 10 (Date 2024 1 1))
        (bookings (snd (update_booking_api ex_clock ''alice''
                          (ex_request ''1'' ''available'') ex_db_two))) = []"
proof -
  note r = ex_db_two_reachable
  have m: "map (\<lambda>b. (b_court b, b_time_slot b, b_date b)) (bookings ex_db_two)
       = [(1, 11, Date 2024 1 1), (1, 10, Date 2024 1 1)]"
    by code_simp
  from booking_triple_invariant [OF r, of ex_clock "''alice''" "ex_request ''2'' ''maintenance''"]
  have u: "unique_triples (bookings ex_db_two)"
    and u1: "unique_triples (bookings (snd (update_booking_api ex_clock ''alice''
                                       (ex_request ''2'' ''maintenance'') ex_db_two)))"
    by simp_all
  have n: "length (bookings (snd (update_booking_api ex_clock ''alice''
                               (ex_request ''2'' ''maintenance'') ex_db_two))) = 2"
    by code_simp
  have t: "truthy (r_courtId (ex_request ''1'' ''available''))"
    and t': "truthy (r_timeSlotId (ex_request ''1'' ''available''))"
    and a: "r_status (ex_request ''1'' ''available'') = JStr ''available''"
    and d: "fromisoformat (request_date ex_clock (r_date (ex_request ''1'' ''available'')))
              = Some (Date 2024 1 1)"
    and c: "resolve_slot_and_court (r_timeSlotId (ex_request ''1'' ''available''))
              (r_courtId (ex_request ''1'' ''available'')) ex_db_two
              = Inr (\<lparr>ts_id = 10, hour = 7\<rparr>, 1, ex_court)"
    by code_simp+
  from booking_triple_invariant [OF r, where clk = ex_clock and username = "''alice''"
         and req = "ex_request ''1'' ''available''" and d = "Date 2024 1 1"
         and slot = "\<lparr>ts_id = 10, hour = 7\<rparr>" and coid = 1 and court = ex_court] t t' a d c
  have u2: "unique_triples (bookings (snd (update_booking_api ex_clock ''alice''
                                       (ex_request ''1'' ''available'') ex_db_two)))"
    and "\<not> list_ex (same_triple 1 10 (Date 2024 1 1))
        (bookings (snd (update_booking_api ex_clock ''alice''
                          (ex_request ''1'' ''available'') ex_db_two)))"
    by simp_all
  then have f: "filter (same_triple 1 10 (Date 2024 1 1))
        (bookings (snd (update_booking_api ex_clock ''alice''
                          (ex_request ''1'' ''available'') ex_db_two))) = []"
    by (simp only: list_ex_iff filter_empty_conv) blast
  from r m u u1 n u2 f show ?thesis by (intro conjI)
qed

section \<open>Upsert by triple\<close>

text \<open>
  Claim C4, the half that holds: when a booking exists for the resolved triple (and
  triples are unique), \<open>reconcile_match\<close> above shows that the row keeps its id and its
  other fields, takes the new status and user, has \<open>updated_at\<close> set to the time of the
  request, and that the action is \<open>updated\<close>. On the example database:
\<close>

lemma update_path_example:
  "update_booking_api ex_clock ''alice'' (ex_request ''2'' ''maintenance'') ex_db =
     (Inr \<lparr>rb_id = Some 20, rb_court = ''Badminton Court 1'', rb_time_slot = ''10:00 PM'',
           rb_date = ''2024-01-01'', rb_status = ''maintenance'', rb_user = ''alice'',
           rb_action = ''updated''\<rparr>,
      ex_db\<lparr>bookings := [ex_booking\<lparr>b_status := ''maintenance'', b_user := ''alice'',
                                      b_updated_at := 100\<rparr>]\<rparr>)"
  by code_simp

text \<open>
  Claim C4, the half that fails: with no booking for the triple, the instance
  \<open>update_or_create\<close> creates has neither court nor time slot (\<open>created_instance\<close>),
  \<open>Booking.save\<close> raises on reading \<open>self.court\<close>, and the view answers 500
  ``Failed to update booking'' without writing a row
  (\<open>reconcile_no_match\<close> for every such request). On the example database, for the
  badminton court, slot 1 and status \<open>booked\<close>:
\<close>

theorem create_path_fails:
  "update_booking_api ex_clock ''alice'' (ex_request ''1'' ''booked'') ex_db =
     (Inl (Failed_to_update_booking RelatedObjectDoesNotExist), ex_db)"
  by code_simp

section \<open>Two requests for one triple\<close>

text \<open>
  Claim C8, on the schedule in which the second request starts when the first has
  returned. Two requests with statuses other than \<open>available\<close> for the 7:00 slot of the
  badminton court on 2024-01-01, a triple that has no booking: the first request is
  answered 500 ``Failed to update booking'', the second request, made on the state the
  first one left, is answered the same and not with action \<open>updated\<close>, and no row has
  the triple afterwards, where the claim has exactly one.
\<close>

theorem sequential_requests_leave_no_row:
  "resolve_slot_and_court (JStr ''1'') (JStr ''000000000000000000000001'') ex_db
       = Inr (\<lparr>ts_id = 10, hour = 7\<rparr>, 1, ex_court)
   \<and> filter (same_triple 1 10 (Date 2024 1 1)) (bookings ex_db) = []
   \<and> map_sum http_status rb_action
       (fst (update_booking_api ex_clock ''alice'' (ex_request ''1'' ''booked'') ex_db))
       = Inl 500
   \<and> fst (update_booking_api ex_clock ''carol'' (ex_request ''1'' ''reserved'')
            (snd (update_booking_api ex_clock ''alice'' (ex_request ''1'' ''booked'') ex_db)))
       = Inl (Failed_to_update_booking RelatedObjectDoesNotExist)
   \<and> filter (same_triple 1 10 (Date 2024 1 1))
        (bookings (snd (update_booking_api ex_clock ''carol'' (ex_request ''1'' ''reserved'')
            (snd (update_booking_api ex_clock ''alice'' (ex_request ''1'' ''booked'') ex_db)))))
       = []"
  by code_simp

section \<open>Setting a slot to available\<close>

lemma Court_get_Inr: "Court_get k s = Inr c \<Longrightarrow> c \<in> set (courts s) \<and> c_id c = k"
proof -
  assume a: "Court_get k s = Inr c"
  then have "filter (\<lambda>c. c_id c = k) (courts s) = [c]"
    by (auto simp: Court_get_def split: list.splits)
  then have "c \<in> set (filter (\<lambda>c. c_id c = k) (courts s))" by simp
  then show ?thesis by simp
qed

lemma resolve_slot_and_court_Inr:
  assumes "resolve_slot_and_court time_slot_id court_id s = Inr (slot, coid, court)"
  shows "\<exists>n. py_int time_slot_id = Inr n
            \<and> py_index (sort_key hour (time_slots s)) (n - 1) = Inr slot
            \<and> court \<in> set (courts s) \<and> c_id court = coid"
proof -
  from assms obtain n where n: "py_int time_slot_id = Inr n"
    by (cases "py_int time_slot_id") (simp_all add: resolve_slot_and_court_def)
  from assms n obtain sl where sl: "py_index (sort_key hour (time_slots s)) (n - 1) = Inr sl"
    by (cases "py_index (sort_key hour (time_slots s)) (n - 1)")
       (simp_all add: resolve_slot_and_court_def)
  from assms n sl obtain k where k: "ObjectId court_id = Inr k"
    by (cases "ObjectId court_id") (simp_all add: resolve_slot_and_court_def)
  from assms n sl k obtain c where c: "Court_get k s = Inr c"
    by (cases "Court_get k s") (simp_all add: resolve_slot_and_court_def)
  from assms n sl k c have "sl = slot" "k = coid" "c = court"
    by (simp_all add: resolve_slot_and_court_def)
  with n sl Court_get_Inr [OF c] show ?thesis by simp
qed

lemma resolve_slot_and_court_frame:
  "time_slots s' = time_slots s \<Longrightarrow> courts s' = courts s \<Longrightarrow>
   resolve_slot_and_court time_slot_id court_id s' = resolve_slot_and_court time_slot_id court_id s"
  unfolding resolve_slot_and_court_def Court_get_def by (simp only:)

lemma py_index_positive:
  assumes "py_index xs (int i - 1) = Inr x" and "1 \<le> i"
  shows "i \<le> length xs \<and> x = xs ! (i - 1)"
proof -
  from assms(2) have nn: "0 \<le> int i - 1" by simp
  with assms(1) have lt: "int i - 1 < int (length xs)"
    by (cases "int i - 1 < int (length xs)") (simp_all add: py_index_def)
  with assms(1) nn have "x = xs ! nat (int i - 1)" by (simp add: py_index_def)
  moreover from assms(2) have "nat (int i - 1) = i - 1" by simp
  ultimately show ?thesis using lt by simp
qed

lemma court_status_api_ok:
  assumes "fromisoformat ds = Some d" and "sp \<noteq> []" and "time_slots s \<noteq> []"
  shows "court_status_api clk (Some sp) (Some ds) s = (Inr (build_grid clk ds d sp s), s)"
  using assms by (simp add: court_status_api_def resolve_sport_def ensure_time_slots_def)

text \<open>
  Claim C5. For a request with status \<open>available\<close> that passes validation and resolves
  to (court, time slot, date): the first call removes the rows of that triple and
  reports \<open>deleted\<close> when there was one, \<open>no_change\<close> otherwise; a second call reports
  \<open>no_change\<close> and changes nothing; and the grid read afterwards for the court's sport
  and the same date shows \<open>available\<close> under the request's slot index.
\<close>

theorem set_available_twice:
  assumes truthy: "truthy (r_courtId req)" "truthy (r_timeSlotId req)"
    and st: "r_status req = JStr ''available''"
    and date: "fromisoformat (request_date clk (r_date req)) = Some d"
    and res: "resolve_slot_and_court (r_timeSlotId req) (r_courtId req) s = Inr (slot, coid, court)"
    and first: "update_booking_api clk username req s = (r1, s1)"
    and second: "update_booking_api clk username req s1 = (r2, s2)"
  shows "map_sum id rb_action r1 =
           Inr (if list_ex (same_triple coid (ts_id slot) d) (bookings s)
                then ''deleted'' else ''no_change'')
       \<and> s1 = s\<lparr>bookings := filter (\<lambda>b. \<not> same_triple coid (ts_id slot) d b) (bookings s)\<rparr>
       \<and> map_sum id rb_action r2 = Inr ''no_change''
       \<and> s2 = s1
       \<and> (\<forall>i. py_int (r_timeSlotId req) = Inr (int i) \<and> 1 \<le> i \<and> c_sport court \<noteq> [] \<longrightarrow>
            (\<exists>grid. court_status_api clk (Some (c_sport court))
                       (Some (request_date clk (r_date req))) s2 = (Inr grid, s2)
                \<and> (\<exists>ci \<in> set (g_courts grid). ci_id ci = coid)
                \<and> (\<forall>ci \<in> set (g_courts grid).
                      ci_id ci = coid \<longrightarrow> slot_status ci i = Some ''available'')))"
proof -
  let ?P = "same_triple coid (ts_id slot) d"
  let ?s1 = "s\<lparr>bookings := filter (\<lambda>b. \<not> ?P b) (bookings s)\<rparr>"
  have v: "''available'' \<in> set valid_statuses" by (simp add: valid_statuses_def)
  have call1: "update_booking_api clk username req s
                 = reconcile clk username ''available'' d slot coid court s"
    by (rule update_booking_api_valid [OF truthy st v date res])
  from first [unfolded call1 reconcile_available] have s1: "s1 = ?s1"
    by (simp only: prod.inject)
  from first [unfolded call1 reconcile_available] have r1: "map_sum id rb_action r1 =
           Inr (if list_ex ?P (bookings s) then ''deleted'' else ''no_change'')"
    by (cases "list_ex ?P (bookings s)") auto
  have "resolve_slot_and_court (r_timeSlotId req) (r_courtId req) ?s1
          = resolve_slot_and_court (r_timeSlotId req) (r_courtId req) s"
    by (rule resolve_slot_and_court_frame) simp_all
  with res have res1:
    "resolve_slot_and_court (r_timeSlotId req) (r_courtId req) s1 = Inr (slot, coid, court)"
    unfolding s1 by (simp only:)
  have call2: "update_booking_api clk username req s1
                 = reconcile clk username ''available'' d slot coid court s1"
    by (rule update_booking_api_valid [OF truthy st v date res1])
  have none1: "\<not> list_ex ?P (bookings s1)"
    unfolding s1 by (simp add: list_ex_iff)
  then have same: "filter (\<lambda>b. \<not> ?P b) (bookings s1) = bookings s1"
    by (simp add: list_ex_iff)
  from second [unfolded call2 reconcile_available] have "s2 = s1\<lparr>bookings := bookings s1\<rparr>"
    by (simp only: prod.inject same)
  then have s2: "s2 = s1" by simp
  from second [unfolded call2 reconcile_available] none1
  have r2: "map_sum id rb_action r2 = Inr ''no_change''"
    by auto
  have read: "\<forall>i. py_int (r_timeSlotId req) = Inr (int i) \<and> 1 \<le> i \<and> c_sport court \<noteq> [] \<longrightarrow>
            (\<exists>grid. court_status_api clk (Some (c_sport court))
                       (Some (request_date clk (r_date req))) s2 = (Inr grid, s2)
                \<and> (\<exists>ci \<in> set (g_courts grid). ci_id ci = coid)
                \<and> (\<forall>ci \<in> set (g_courts grid).
                      ci_id ci = coid \<longrightarrow> slot_status ci i = Some ''available''))"
  proof (intro allI impI)
    fix i
    assume h: "py_int (r_timeSlotId req) = Inr (int i) \<and> 1 \<le> i \<and> c_sport court \<noteq> []"
    let ?ts = "sort_key hour (time_slots s1)"
    let ?sp = "c_sport court"
    let ?ds = "request_date clk (r_date req)"
    let ?bq = "filter (\<lambda>b. (\<exists>c \<in> set (courts s1). c_id c = b_court b \<and> c_sport c = ?sp)
                         \<and> b_date b = d) (bookings s1)"
    from resolve_slot_and_court_Inr [OF res1] h have
      idx: "py_index ?ts (int i - 1) = Inr slot" and court: "court \<in> set (courts s1)" "c_id court = coid"
      by auto
    from py_index_positive [OF idx] h have i: "1 \<le> i" "i \<le> length ?ts" and slot: "slot = ?ts ! (i - 1)"
      by simp_all
    from i have ne: "time_slots s1 \<noteq> []" by auto
    let ?grid = "build_grid clk ?ds d ?sp s1"
    from h have api: "court_status_api clk (Some ?sp) (Some ?ds) s1 = (Inr ?grid, s1)"
      by (intro court_status_api_ok [OF date _ ne]) simp
    have gc: "g_courts ?grid = map (build_court_info ?ts ?bq) (filter (\<lambda>c. c_sport c = ?sp) (courts s1))"
      by (simp add: build_grid_def Let_def)
    have ex: "\<exists>ci \<in> set (g_courts ?grid). ci_id ci = coid"
    proof -
      from court have "build_court_info ?ts ?bq court \<in> set (g_courts ?grid)"
        unfolding gc by simp
      moreover have "ci_id (build_court_info ?ts ?bq court) = coid"
        using court by (simp add: build_court_info_def Let_def)
      ultimately show ?thesis by blast
    qed
    have all: "\<forall>ci \<in> set (g_courts ?grid). ci_id ci = coid \<longrightarrow> slot_status ci i = Some ''available''"
    proof (intro ballI impI)
      fix ci assume ci: "ci \<in> set (g_courts ?grid)" and id: "ci_id ci = coid"
      from ci obtain C' where C': "ci = build_court_info ?ts ?bq C'"
        unfolding gc by auto
      from id C' have idC: "c_id C' = coid" by (simp add: build_court_info_def Let_def)
      have "\<forall>b \<in> set ?bq. b_court b = c_id C' \<longrightarrow> b_time_slot b \<noteq> ts_id (?ts ! (i - 1))"
      proof (intro ballI impI)
        fix b assume b: "b \<in> set ?bq" and bc: "b_court b = c_id C'"
        from b have "b \<in> set (bookings s1)" and bd: "b_date b = d" by simp_all
        with none1 have "\<not> ?P b" by (auto simp: list_ex_iff)
        with bc bd idC slot show "b_time_slot b \<noteq> ts_id (?ts ! (i - 1))"
          by (simp add: same_triple_def)
      qed
      from build_court_info_available [OF i this]
      show "slot_status ci i = Some ''available''" by (simp only: C')
    qed
    from api ex all show "\<exists>grid. court_status_api clk (Some ?sp) (Some ?ds) s2 = (Inr grid, s2)
                \<and> (\<exists>ci \<in> set (g_courts grid). ci_id ci = coid)
                \<and> (\<forall>ci \<in> set (g_courts grid).
                      ci_id ci = coid \<longrightarrow> slot_status ci i = Some ''available'')"
      unfolding s2 by blast
  qed
  from r1 s1 r2 s2 read show ?thesis by (intro conjI)
qed

theorem set_available_twice_witness:
  "truthy (r_courtId (ex_request ''2'' ''available''))
   \<and> truthy (r_timeSlotId (ex_request ''2'' ''available''))
   \<and> r_status (ex_request ''2'' ''available'') = JStr ''available''
   \<and> fromisoformat (request_date ex_clock (r_date (ex_request ''2'' ''available'')))
         = Some (Date 2024 1 1)
   \<and> resolve_slot_and_court (r_timeSlotId (ex_request ''2'' ''available''))
         (r_courtId (ex_request ''2'' ''available'')) ex_db
         = Inr (\<lparr>ts_id = 11, hour = 22\<rparr>, 1, ex_court)
   \<and> list_ex (same_triple 1 11 (Date 2024 1 1)) (bookings ex_db)
   \<and> map_sum id rb_action
         (fst (update_booking_api ex_clock ''alice'' (ex_request ''2'' ''available'') ex_db))
         = Inr ''deleted''
   \<and> snd (update_booking_api ex_clock ''alice'' (ex_request ''2'' ''available'') ex_db)
         = ex_db_cleared
   \<and> map_sum id rb_action
         (fst (update_booking_api ex_clock ''alice'' (ex_request ''2'' ''available'') ex_db_cleared))
         = Inr ''no_change''
   \<and> snd (update_booking_api ex_clock ''alice'' (ex_request ''2'' ''available'') ex_db_cleared)
         = ex_db_cleared
   \<and> court_status_api ex_clock (Some ''badminton'') (Some ''2024-01-01'') ex_db_cleared
         = (Inr ex_grid_cleared, ex_db_cleared)
   \<and> slot_status (hd (g_courts ex_grid_cleared)) 2 = Some ''available''"
proof -
  let ?req = "ex_request ''2'' ''available''"
  let ?slot = "\<lparr>ts_id = 11, hour = 22\<rparr>"
  have h1: "truthy (r_courtId ?req)" by code_simp
  have h2: "truthy (r_timeSlotId ?req)" by code_simp
  have h3: "r_status ?req = JStr ''available''" by code_simp
  have h4: "fromisoformat (request_date ex_clock (r_date ?req)) = Some (Date 2024 1 1)"
    by code_simp
  have h5: "resolve_slot_and_court (r_timeSlotId ?req) (r_courtId ?req) ex_db
              = Inr (?slot, 1, ex_court)"
    by code_simp
  have ex: "list_ex (same_triple 1 11 (Date 2024 1 1)) (bookings ex_db)" by code_simp
  have cl: "ex_db\<lparr>bookings := filter (\<lambda>b. \<not> same_triple 1 11 (Date 2024 1 1) b) (bookings ex_db)\<rparr>
              = ex_db_cleared"
    by code_simp
  have sp: "c_sport ex_court = ''badminton''" by code_simp
  have ds: "request_date ex_clock (r_date ?req) = ''2024-01-01''" by code_simp
  have pi: "py_int (r_timeSlotId ?req) = Inr (int 2)" by code_simp
  have api: "court_status_api ex_clock (Some ''badminton'') (Some ''2024-01-01'') ex_db_cleared
               = (Inr ex_grid_cleared, ex_db_cleared)"
    by code_simp
  have mem: "hd (g_courts ex_grid_cleared) \<in> set (g_courts ex_grid_cleared)" by code_simp
  have cid: "ci_id (hd (g_courts ex_grid_cleared)) = 1" by code_simp
  obtain r1 s1 where c1: "update_booking_api ex_clock ''alice'' ?req ex_db = (r1, s1)"
    by (cases "update_booking_api ex_clock ''alice'' ?req ex_db")
  obtain r2 s2 where c2: "update_booking_api ex_clock ''alice'' ?req s1 = (r2, s2)"
    by (cases "update_booking_api ex_clock ''alice'' ?req s1")
  note t = set_available_twice [OF h1 h2 h3 h4 h5 c1 c2]
  from t ex have a1: "map_sum id rb_action r1 = Inr ''deleted''" by simp
  from t cl have s1: "s1 = ex_db_cleared" by simp
  from t have a2: "map_sum id rb_action r2 = Inr ''no_change''" by simp
  from t s1 have s2: "s2 = ex_db_cleared" by simp
  from t pi sp ds s2 obtain grid where
    g: "court_status_api ex_clock (Some ''badminton'') (Some ''2024-01-01'') ex_db_cleared
          = (Inr grid, ex_db_cleared)"
    and av: "\<forall>ci \<in> set (g_courts grid). ci_id ci = 1 \<longrightarrow> slot_status ci 2 = Some ''available''"
    by auto
  from g api have "grid = ex_grid_cleared" by simp
  with av mem cid have rd: "slot_status (hd (g_courts ex_grid_cleared)) 2 = Some ''available''"
    by simp
  from c1 a1 have b1: "map_sum id rb_action (fst (update_booking_api ex_clock ''alice'' ?req ex_db))
                         = Inr ''deleted''" by simp
  from c1 s1 have b2: "snd (update_booking_api ex_clock ''alice'' ?req ex_db) = ex_db_cleared"
    by simp
  from c2 a2 s1 have b3:
    "map_sum id rb_action (fst (update_booking_api ex_clock ''alice'' ?req ex_db_cleared))
       = Inr ''no_change''" by simp
  from c2 s2 s1 have b4:
    "snd (update_booking_api ex_clock ''alice'' ?req ex_db_cleared) = ex_db_cleared" by simp
  from h1 h2 h3 h4 h5 ex b1 b2 b3 b4 api rd show ?thesis by (intro conjI)
qed

section \<open>Frontend slot indices\<close>

text \<open>
  An id that \<open>int\<close> rejects, an index above the number of slots and an index at or below
  minus that number are answered with the error of the \<open>try\<close> block, and nothing is
  written.
\<close>

lemma update_booking_api_bad_slot:
  assumes "truthy (r_courtId req)" and "truthy (r_timeSlotId req)"
    and "r_status req = JStr st" and "st \<in> set valid_statuses"
    and "fromisoformat (request_date clk (r_date req)) = Some d"
    and bad: "(\<exists>e. py_int (r_timeSlotId req) = Inl e)
              \<or> (\<exists>n. py_int (r_timeSlotId req) = Inr n
                    \<and> (int (length (time_slots s)) < n \<or> n \<le> - int (length (time_slots s))))"
  shows "\<exists>e. update_booking_api clk username req s = (Inl (Invalid_court_or_time_slot e), s)"
proof -
  have "\<exists>e. resolve_slot_and_court (r_timeSlotId req) (r_courtId req) s = Inl e"
  proof (cases "py_int (r_timeSlotId req)")
    case (Inl e)
    then show ?thesis by (simp add: resolve_slot_and_court_def)
  next
    case (Inr n)
    with bad have "int (length (time_slots s)) < n \<or> n \<le> - int (length (time_slots s))"
      by simp
    then have "py_index (sort_key hour (time_slots s)) (n - 1) = Inl IndexError"
      by (auto simp: py_index_def)
    with Inr show ?thesis by (simp add: resolve_slot_and_court_def)
  qed
  then obtain e where "resolve_slot_and_court (r_timeSlotId req) (r_courtId req) s = Inl e" ..
  with assms(1-5) valid_status_nonempty [OF assms(4)]
  have "update_booking_api clk username req s = (Inl (Invalid_court_or_time_slot e), s)"
    by (simp add: update_booking_api_def Let_def request_date_def)
  then show ?thesis ..
qed

text \<open>
  An index from \<open>1 - N\<close> to 0 is not rejected: it selects a slot counted from the end of
  the sorted list, index 0 the last one.
\<close>

lemma nonpositive_slot_index_resolves:
  assumes "n \<le> 0" and "- int (length xs) < n"
  shows "py_index xs (n - 1) = Inr (xs ! nat (int (length xs) + n - 1))"
  using assms by (simp add: py_index_def algebra_simps)

text \<open>
  Claim C2 fails for index 0. On the example database the slot id \<open>"0"\<close> with status
  \<open>available\<close> is not rejected: it resolves to the last slot (10:00 PM) and the booking
  of that slot is deleted.
\<close>

theorem slot_index_zero_accepted:
  "update_booking_api ex_clock ''alice'' (ex_request ''0'' ''available'') ex_db =
     (Inr \<lparr>rb_id = None, rb_court = ''Badminton Court 1'', rb_time_slot = ''10:00 PM'',
           rb_date = ''2024-01-01'', rb_status = ''available'', rb_user = ''alice'',
           rb_action = ''deleted''\<rparr>,
      ex_db\<lparr>bookings := []\<rparr>)"
  by code_simp

end
